theory Spec2Isabelle
  imports Main "HOL-Library.Word" "HOL-Library.Sublist"
begin

unbundle bit_operations_syntax

section \<open>Python strings and bytes\<close>

text \<open>
  A Python \<open>str\<close> is modelled as a \<^typ>\<open>string\<close>, a list of 8-bit characters read as
  the code points 0..255 (Latin-1). This is exactly the range of header values, which
  the HTTP client decodes as ISO-8859-1; a URL typed with code points beyond 255 is
  outside the model. A \<open>bytes\<close> object is a list of 8-bit words.
\<close>

type_synonym byte = "8 word"
type_synonym bytes = "byte list"

definition ord :: "char \<Rightarrow> nat" where
  "ord c = of_char c"

text \<open>\<open>str.lower()\<close> on Latin-1: A-Z and the accented capitals (except the
  multiplication sign) move up by 32.\<close>

definition lower_char :: "char \<Rightarrow> char" where
  "lower_char c =
     (if (65 \<le> ord c \<and> ord c \<le> 90) \<or> (192 \<le> ord c \<and> ord c \<le> 222 \<and> ord c \<noteq> 215)
      then char_of (ord c + 32) else c)"

definition str_lower :: "string \<Rightarrow> string" where
  "str_lower s = map lower_char s"

text \<open>\<open>s.startswith(p)\<close>.\<close>

definition startswith :: "string \<Rightarrow> string \<Rightarrow> bool" where
  "startswith s p = (take (length p) s = p)"

text \<open>\<open>s.find(c)\<close> and \<open>s.rfind(c)\<close> for a one-character needle: the index of the
  first (last) occurrence, or -1.\<close>

definition str_find :: "string \<Rightarrow> char \<Rightarrow> int" where
  "str_find s c = (if c \<in> set s then int (length (takeWhile (\<lambda>x. x \<noteq> c) s)) else - 1)"

definition str_rfind :: "string \<Rightarrow> char \<Rightarrow> int" where
  "str_rfind s c =
     (if c \<in> set s then int (length s) - 1 - int (length (takeWhile (\<lambda>x. x \<noteq> c) (rev s)))
      else - 1)"

text \<open>\<open>s.find(c, start)\<close> with \<open>0 \<le> start\<close>.\<close>

definition str_find_from :: "string \<Rightarrow> char \<Rightarrow> int \<Rightarrow> int" where
  "str_find_from s c start =
     (let r = str_find (drop (nat start) s) c in if r < 0 then - 1 else start + r)"

text \<open>The slices \<open>s[i:]\<close>, \<open>s[:i]\<close> and \<open>s[i:j]\<close>; a negative index counts from the
  end, and indices are clipped to the string.\<close>

definition clip_index :: "'a list \<Rightarrow> int \<Rightarrow> nat" where
  "clip_index s i = (if i < 0 then nat (int (length s) + i) else nat i)"

definition slice_from :: "'a list \<Rightarrow> int \<Rightarrow> 'a list" where
  "slice_from s i = drop (clip_index s i) s"

definition slice_to :: "'a list \<Rightarrow> int \<Rightarrow> 'a list" where
  "slice_to s i = take (clip_index s i) s"

definition slice :: "'a list \<Rightarrow> int \<Rightarrow> int \<Rightarrow> 'a list" where
  "slice s i j = drop (clip_index s i) (take (clip_index s j) s)"

text \<open>\<open>s.split(c, 1)\<close> when \<open>c\<close> occurs in \<open>s\<close>: the text before the first
  occurrence and the text after it.\<close>

definition split_once :: "string \<Rightarrow> char \<Rightarrow> string \<times> string" where
  "split_once s c = (slice_to s (str_find s c), slice_from s (str_find s c + 1))"

text \<open>The decimal rendering \<open>str(n)\<close> of a natural number.\<close>

definition digit_char :: "nat \<Rightarrow> char" where
  "digit_char d = char_of (48 + d)"

fun str_of_nat :: "nat \<Rightarrow> string" where
  "str_of_nat n = (if n < 10 then [digit_char n] else str_of_nat (n div 10) @ [digit_char (n mod 10)])"

declare str_of_nat.simps [simp del]

section \<open>Exceptions\<close>

text \<open>
  The exceptions that reach the handlers of \<open>download_image\<close>. All of them derive from
  \<open>Exception\<close>; \<open>RequestException\<close> stands for the whole hierarchy of the HTTP
  library, the only one the first handler catches.
\<close>

datatype exn = ValueError | OSError | RequestException | OtherException

section \<open>The collaborators\<close>

subsection \<open>Responses\<close>

text \<open>
  A response as \<open>download_image\<close> uses it: the status code, the headers (the pairs in the
  order they were stored into the case-insensitive dictionary) and what iterating
  \<open>iter_content\<close> produces: chunks of the body, or an exception raised in the middle of
  the stream.
\<close>

datatype chunk_event = Chunk bytes | StreamRaises exn

record response =
  status_code :: int
  headers :: "(string \<times> string) list"
  iter_content :: "chunk_event list"

text \<open>The header dictionary keys its entries by the lowercased name; a later entry
  replaces an earlier one. \<open>headers.get(name)\<close> is \<open>None\<close> when there is no entry.\<close>

definition headers_get :: "(string \<times> string) list \<Rightarrow> string \<Rightarrow> string option" where
  "headers_get hs name = map_of (map (\<lambda>(k, v). (str_lower k, v)) (rev hs)) (str_lower name)"

text \<open>\<open>headers.get(name, default)\<close>.\<close>

definition headers_get_default :: "(string \<times> string) list \<Rightarrow> string \<Rightarrow> string \<Rightarrow> string" where
  "headers_get_default hs name d = (case headers_get hs name of None \<Rightarrow> d | Some v \<Rightarrow> v)"

subsection \<open>The environment\<close>

text \<open>
  What a failing \<open>with open(filepath, 'wb') as f: f.write(content)\<close> leaves behind:
  \<open>open\<close> itself can raise, and then no file is created; or the file is created and the
  write (or the flush on close) raises after only a prefix of the content reached it.
\<close>

datatype write_result = Written | OpenRaises exn | WriteRaises exn nat

text \<open>
  The environment of one run:
  \<^item> \<open>requests_get k url\<close> is the result of the \<open>k\<close>-th call of \<open>requests.get\<close> of this run
    (a response, or an exception);
  \<^item> \<open>open_wb path content\<close> says how writing \<open>content\<close> to the new file \<open>path\<close> ends;
  \<^item> \<open>check_bracketed_host\<close> is the URL parser's validation of a host written between
    square brackets (an IP literal), which newer versions of the library perform; it is
    true when the host is accepted.
\<close>

record env =
  requests_get :: "nat \<Rightarrow> string \<Rightarrow> exn + response"
  open_wb :: "string \<Rightarrow> bytes \<Rightarrow> write_result"
  check_bracketed_host :: "string \<Rightarrow> bool"

section \<open>urllib.parse\<close>

text \<open>
  \<open>urlparse\<close> is the standard library's. The model follows \<open>urlsplit\<close> and \<open>urlparse\<close>
  statement by statement on Latin-1 strings (where the NFKC check of the network
  location never raises).
\<close>

record parse_result =
  scheme :: string
  netloc :: string
  path :: string
  params :: string
  query :: string
  fragment :: string

definition scheme_chars :: string where
  "scheme_chars = ''abcdefghijklmnopqrstuvwxyzABCDEFGHIJKLMNOPQRSTUVWXYZ0123456789+-.''"

definition uses_params :: "string list" where
  "uses_params = ['''', ''ftp'', ''hdl'', ''prospero'', ''http'', ''imap'', ''https'', ''shttp'',
     ''rtsp'', ''rtsps'', ''rtspu'', ''sip'', ''sips'', ''mms'', ''sftp'', ''tel'']"

definition is_ascii_alpha :: "char \<Rightarrow> bool" where
  "is_ascii_alpha c = ((65 \<le> ord c \<and> ord c \<le> 90) \<or> (97 \<le> ord c \<and> ord c \<le> 122))"

text \<open>\<open>url.lstrip(_WHATWG_C0_CONTROL_OR_SPACE)\<close>: the characters 0..32.\<close>

definition lstrip_c0 :: "string \<Rightarrow> string" where
  "lstrip_c0 url = dropWhile (\<lambda>c. ord c \<le> 32) url"

text \<open>Tab, carriage return and line feed are removed everywhere.\<close>

definition remove_unsafe :: "string \<Rightarrow> string" where
  "remove_unsafe url = filter (\<lambda>c. ord c \<noteq> 9 \<and> ord c \<noteq> 13 \<and> ord c \<noteq> 10) url"

text \<open>The scheme is the text before the first colon when it starts with an ASCII letter
  and consists of scheme characters; it is lowercased.\<close>

definition split_scheme :: "string \<Rightarrow> string \<times> string" where
  "split_scheme url =
     (let i = str_find url CHR '':'' in
      if i > 0 \<and> is_ascii_alpha (hd url) \<and> list_all (\<lambda>c. c \<in> set scheme_chars) (slice_to url i)
      then (str_lower (slice_to url i), slice_from url (i + 1))
      else ('''', url))"

text \<open>\<open>_splitnetloc(url, 2)\<close>: the network location ends at the first of \<open>/ ? #\<close>.\<close>

definition splitnetloc :: "string \<Rightarrow> string \<times> string" where
  "splitnetloc url =
     (let is_delim = (\<lambda>c. c = CHR ''/'' \<or> c = CHR ''?'' \<or> c = CHR ''#'') in
      (takeWhile (\<lambda>c. \<not> is_delim c) (drop 2 url), dropWhile (\<lambda>c. \<not> is_delim c) (drop 2 url)))"

text \<open>\<open>netloc.partition('[')[2].partition(']')[0]\<close>.\<close>

definition bracketed_host :: "string \<Rightarrow> string" where
  "bracketed_host nl =
     takeWhile (\<lambda>c. c \<noteq> CHR '']'') (drop 1 (dropWhile (\<lambda>c. c \<noteq> CHR ''['') nl))"

definition urlsplit :: "env \<Rightarrow> string \<Rightarrow> exn + (string \<times> string \<times> string \<times> string \<times> string)" where
  "urlsplit e url0 =
     (let url1 = remove_unsafe (lstrip_c0 url0);
          (sch, url2) = split_scheme url1;
          (nl, url3) = (if take 2 url2 = ''//'' then splitnetloc url2 else ('''', url2))
      in if take 2 url2 = ''//'' \<and>
            ((CHR ''['' \<in> set nl \<and> CHR '']'' \<notin> set nl) \<or> (CHR '']'' \<in> set nl \<and> CHR ''['' \<notin> set nl))
         then Inl ValueError
         else if take 2 url2 = ''//'' \<and> CHR ''['' \<in> set nl \<and> CHR '']'' \<in> set nl
                 \<and> \<not> check_bracketed_host e (bracketed_host nl)
         then Inl ValueError
         else
           let (url4, frag) = (if CHR ''#'' \<in> set url3 then split_once url3 CHR ''#'' else (url3, ''''));
               (url5, qry) = (if CHR ''?'' \<in> set url4 then split_once url4 CHR ''?'' else (url4, ''''))
           in Inr (sch, nl, url5, qry, frag))"

definition splitparams :: "string \<Rightarrow> string \<times> string" where
  "splitparams url =
     (if CHR ''/'' \<in> set url then
        (let i = str_find_from url CHR '';'' (str_rfind url CHR ''/'') in
         if i < 0 then (url, '''') else (slice_to url i, slice_from url (i + 1)))
      else
        (let i = str_find url CHR '';'' in (slice_to url i, slice_from url (i + 1))))"

definition urlparse :: "env \<Rightarrow> string \<Rightarrow> exn + parse_result" where
  "urlparse e url =
     (case urlsplit e url of
        Inl x \<Rightarrow> Inl x
      | Inr (sch, nl, u, qry, frag) \<Rightarrow>
          (let (u', prm) = (if sch \<in> set uses_params \<and> CHR '';'' \<in> set u then splitparams u else (u, ''''))
           in Inr \<lparr>scheme = sch, netloc = nl, path = u', params = prm, query = qry, fragment = frag\<rparr>))"

section \<open>os.path (POSIX)\<close>

text \<open>\<open>os.path.basename\<close>: the text after the last slash.\<close>

definition basename :: "string \<Rightarrow> string" where
  "basename p = slice_from p (str_rfind p CHR ''/'' + 1)"

text \<open>
  \<open>os.path.splitext\<close>: the extension starts at the last dot, unless that dot comes before
  the last slash or only dots stand between the last slash and it. The inner loop of the
  library looks for a character other than a dot in that stretch.
\<close>

function skip_leading_dots :: "string \<Rightarrow> int \<Rightarrow> int \<Rightarrow> bool" where
  "skip_leading_dots p filenameIndex dotIndex =
     (if filenameIndex < dotIndex then
        (if slice p filenameIndex (filenameIndex + 1) \<noteq> ''.'' then True
         else skip_leading_dots p (filenameIndex + 1) dotIndex)
      else False)"
  by pat_completeness auto
termination
  by (relation "measure (\<lambda>(p, f, d). nat (d - f))") auto

declare skip_leading_dots.simps [simp del]

definition splitext :: "string \<Rightarrow> string \<times> string" where
  "splitext p =
     (let sepIndex = str_rfind p CHR ''/''; dotIndex = str_rfind p CHR ''.'' in
      if dotIndex > sepIndex \<and> skip_leading_dots p (sepIndex + 1) dotIndex
      then (slice_to p dotIndex, slice_from p dotIndex)
      else (p, ''''))"

text \<open>\<open>os.path.join(a, b)\<close>.\<close>

definition path_join :: "string \<Rightarrow> string \<Rightarrow> string" where
  "path_join a b =
     (if startswith b ''/'' then b
      else if a = '''' \<or> (a \<noteq> '''' \<and> last a = CHR ''/'') then a @ b
      else a @ ''/'' @ b)"

section \<open>int()\<close>

text \<open>
  \<open>int(s)\<close> of a string, base 10: surrounding whitespace is dropped, then comes an
  optional sign and decimal digits, where single underscores may stand between two
  digits. Anything else raises \<open>ValueError\<close>, and so does a number of more than 4300
  digits (the interpreter's default limit).
\<close>

definition is_int_space :: "char \<Rightarrow> bool" where
  "is_int_space c = (ord c \<in> {9, 10, 11, 12, 13, 32, 133, 160})"

definition is_digit :: "char \<Rightarrow> bool" where
  "is_digit c = (48 \<le> ord c \<and> ord c \<le> 57)"

definition strip_int_space :: "string \<Rightarrow> string" where
  "strip_int_space s = rev (dropWhile is_int_space (rev (dropWhile is_int_space s)))"

fun digits_ok :: "string \<Rightarrow> bool" where
  "digits_ok [] = False"
| "digits_ok [c] = is_digit c"
| "digits_ok (c # d # r) =
     (is_digit c \<and> (if d = CHR ''_'' then digits_ok r else digits_ok (d # r)))"

definition dec_value :: "string \<Rightarrow> int" where
  "dec_value ds = foldl (\<lambda>a c. 10 * a + (int (ord c) - 48)) 0 ds"

definition max_str_digits :: nat where
  "max_str_digits = 4300"

definition py_int :: "string \<Rightarrow> exn + int" where
  "py_int s =
     (let t = strip_int_space s;
          (neg, body) =
             (case t of
                [] \<Rightarrow> (False, [])
              | c # r \<Rightarrow> if c = CHR ''-'' then (True, r)
                         else if c = CHR ''+'' then (False, r) else (False, t));
          ds = filter is_digit body
      in if digits_ok body \<and> length ds \<le> max_str_digits
         then Inr (if neg then - dec_value ds else dec_value ds)
         else Inl ValueError)"

section \<open>hashlib.md5\<close>

text \<open>
  The digest of the standard library is MD5 as RFC 1321 defines it: the message is
  padded to a multiple of 64 bytes, and every block goes through four rounds of
  sixteen steps over the little-endian words of the block.
\<close>

definition md5_K :: "32 word list" where
  "md5_K = [
     0xd76aa478, 0xe8c7b756, 0x242070db, 0xc1bdceee,
     0xf57c0faf, 0x4787c62a, 0xa8304613, 0xfd469501,
     0x698098d8, 0x8b44f7af, 0xffff5bb1, 0x895cd7be,
     0x6b901122, 0xfd987193, 0xa679438e, 0x49b40821,
     0xf61e2562, 0xc040b340, 0x265e5a51, 0xe9b6c7aa,
     0xd62f105d, 0x02441453, 0xd8a1e681, 0xe7d3fbc8,
     0x21e1cde6, 0xc33707d6, 0xf4d50d87, 0x455a14ed,
     0xa9e3e905, 0xfcefa3f8, 0x676f02d9, 0x8d2a4c8a,
     0xfffa3942, 0x8771f681, 0x6d9d6122, 0xfde5380c,
     0xa4beea44, 0x4bdecfa9, 0xf6bb4b60, 0xbebfbc70,
     0x289b7ec6, 0xeaa127fa, 0xd4ef3085, 0x04881d05,
     0xd9d4d039, 0xe6db99e5, 0x1fa27cf8, 0xc4ac5665,
     0xf4292244, 0x432aff97, 0xab9423a7, 0xfc93a039,
     0x655b59c3, 0x8f0ccc92, 0xffeff47d, 0x85845dd1,
     0x6fa87e4f, 0xfe2ce6e0, 0xa3014314, 0x4e0811a1,
     0xf7537e82, 0xbd3af235, 0x2ad7d2bb, 0xeb86d391]"

definition md5_S :: "nat list" where
  "md5_S = [7, 12, 17, 22, 7, 12, 17, 22, 7, 12, 17, 22, 7, 12, 17, 22,
            5, 9, 14, 20, 5, 9, 14, 20, 5, 9, 14, 20, 5, 9, 14, 20,
            4, 11, 16, 23, 4, 11, 16, 23, 4, 11, 16, 23, 4, 11, 16, 23,
            6, 10, 15, 21, 6, 10, 15, 21, 6, 10, 15, 21, 6, 10, 15, 21]"

text \<open>The index of the message word each step reads.\<close>

definition md5_G :: "nat list" where
  "md5_G = [0, 1, 2, 3, 4, 5, 6, 7, 8, 9, 10, 11, 12, 13, 14, 15,
            1, 6, 11, 0, 5, 10, 15, 4, 9, 14, 3, 8, 13, 2, 7, 12,
            5, 8, 11, 14, 1, 4, 7, 10, 13, 0, 3, 6, 9, 12, 15, 2,
            0, 7, 14, 5, 12, 3, 10, 1, 8, 15, 6, 13, 4, 11, 2, 9]"

definition rotl32 :: "32 word \<Rightarrow> nat \<Rightarrow> 32 word" where
  "rotl32 x n = (push_bit n x) OR (drop_bit (32 - n) x)"

definition le_word32 :: "bytes \<Rightarrow> 32 word" where
  "le_word32 bs = foldr (\<lambda>b acc. ucast b OR push_bit 8 acc) bs 0"

definition le_bytes :: "nat \<Rightarrow> 'a::len word \<Rightarrow> bytes" where
  "le_bytes n x = map (\<lambda>i. ucast (drop_bit (8 * i) x)) [0..<n]"

fun chunks_of :: "nat \<Rightarrow> 'a list \<Rightarrow> 'a list list" where
  "chunks_of n xs = (if n = 0 \<or> xs = [] then [] else take n xs # chunks_of n (drop n xs))"

declare chunks_of.simps [simp del]

definition md5_pad :: "bytes \<Rightarrow> bytes" where
  "md5_pad m = m @ [0x80] @ replicate ((119 - length m mod 64) mod 64) 0
                 @ le_bytes 8 (of_nat (8 * length m) :: 64 word)"

type_synonym md5_state = "32 word \<times> 32 word \<times> 32 word \<times> 32 word"

definition md5_F :: "nat \<Rightarrow> 32 word \<Rightarrow> 32 word \<Rightarrow> 32 word \<Rightarrow> 32 word" where
  "md5_F r b c d =
     (if r = 0 then (b AND c) OR (NOT b AND d)
      else if r = 1 then (d AND b) OR (NOT d AND c)
      else if r = 2 then b XOR c XOR d
      else c XOR (b OR NOT d))"

definition md5_step :: "32 word list \<Rightarrow> nat \<Rightarrow> md5_state \<Rightarrow> (32 word \<times> nat \<times> nat) \<Rightarrow> md5_state" where
  "md5_step M r st ksg =
     (case (st, ksg) of ((a, b, c, d), (k, s, g)) \<Rightarrow>
        (d, b + rotl32 (md5_F r b c d + a + k + M ! g) s, b, c))"

definition md5_round :: "32 word list \<Rightarrow> md5_state \<Rightarrow> nat \<Rightarrow> md5_state" where
  "md5_round M st r =
     foldl (md5_step M r) st (take 16 (drop (16 * r) (zip md5_K (zip md5_S md5_G))))"

definition md5_block :: "md5_state \<Rightarrow> bytes \<Rightarrow> md5_state" where
  "md5_block st blk =
     (let M = map le_word32 (chunks_of 4 blk) in
      case (st, foldl (md5_round M) st [0, 1, 2, 3]) of
        ((a0, b0, c0, d0), (a, b, c, d)) \<Rightarrow> (a0 + a, b0 + b, c0 + c, d0 + d))"

definition md5_init :: md5_state where
  "md5_init = (0x67452301, 0xefcdab89, 0x98badcfe, 0x10325476)"

definition md5_digest :: "bytes \<Rightarrow> bytes" where
  "md5_digest m =
     (case foldl md5_block md5_init (chunks_of 64 (md5_pad m)) of
        (a, b, c, d) \<Rightarrow> le_bytes 4 a @ le_bytes 4 b @ le_bytes 4 c @ le_bytes 4 d)"

definition hex_digit :: "nat \<Rightarrow> char" where
  "hex_digit n = ''0123456789abcdef'' ! n"

definition hex_of_byte :: "byte \<Rightarrow> string" where
  "hex_of_byte b = [hex_digit (unat b div 16), hex_digit (unat b mod 16)]"

text \<open>\<open>hashlib.md5(content).hexdigest()\<close>.\<close>

definition md5_hexdigest :: "bytes \<Rightarrow> string" where
  "md5_hexdigest m = concat (map hex_of_byte (md5_digest m))"

section \<open>The fetcher\<close>

text \<open>
  \<open>max_file_size\<close> is assigned once, in \<open>__init__\<close>, and never again: it is a constant.
\<close>

definition max_file_size :: int where
  "max_file_size = 10 * 1024 * 1024"

text \<open>
  What a run changes: the set \<open>downloaded_hashes\<close> of the fetcher, the files on disk
  (the existing paths with their contents) and the number of requests sent so far.
\<close>

record world =
  downloaded_hashes :: "string set"
  files :: "(string \<times> bytes) list"
  requests_made :: nat

text \<open>\<open>os.path.exists\<close>, and what a completed \<open>open(path, 'wb')\<close> and write leave.\<close>

definition path_exists :: "(string \<times> bytes) list \<Rightarrow> string \<Rightarrow> bool" where
  "path_exists fs p = (p \<in> set (map fst fs))"

definition write_file :: "(string \<times> bytes) list \<Rightarrow> string \<Rightarrow> bytes \<Rightarrow> (string \<times> bytes) list" where
  "write_file fs p c = (p, c) # filter (\<lambda>entry. fst entry \<noteq> p) fs"

subsection \<open>is_safe_url\<close>

definition is_safe_url :: "env \<Rightarrow> string \<Rightarrow> exn + bool" where
  "is_safe_url e url =
     (case urlparse e url of
        Inl x \<Rightarrow> Inl x
      | Inr parsed \<Rightarrow> Inr (scheme parsed \<in> set [''http'', ''https'']))"

subsection \<open>get_extension_from_content_type and get_filename_from_url\<close>

definition content_map :: "(string \<times> string) list" where
  "content_map =
     [(''image/jpeg'', ''.jpg''),
      (''image/jpg'', ''.jpg''),
      (''image/png'', ''.png''),
      (''image/gif'', ''.gif''),
      (''image/webp'', ''.webp''),
      (''image/svg+xml'', ''.svg''),
      (''image/bmp'', ''.bmp''),
      (''image/tiff'', ''.tiff'')]"

definition get_extension_from_content_type :: "string \<Rightarrow> string" where
  "get_extension_from_content_type content_type =
     (case map_of content_map content_type of None \<Rightarrow> ''.jpg'' | Some extension \<Rightarrow> extension)"

definition get_filename_from_url :: "env \<Rightarrow> string \<Rightarrow> string \<Rightarrow> exn + string" where
  "get_filename_from_url e url content_type =
     (case urlparse e url of
        Inl x \<Rightarrow> Inl x
      | Inr parsed \<Rightarrow>
          (let filename = basename (path parsed) in
           if filename = [] then
             Inr (''ubuntu_image'' @ get_extension_from_content_type content_type)
           else
             (let ext = snd (splitext filename) in
              if ext = [] then Inr (filename @ get_extension_from_content_type content_type)
              else Inr filename)))"

subsection \<open>is_duplicate_image\<close>

definition is_duplicate_image :: "bytes \<Rightarrow> world \<Rightarrow> bool \<times> world" where
  "is_duplicate_image content w =
     (let content_hash = md5_hexdigest content in
      if content_hash \<in> downloaded_hashes w then (True, w)
      else (False, w\<lparr>downloaded_hashes := insert content_hash (downloaded_hashes w)\<rparr>))"

subsection \<open>validate_response\<close>

text \<open>
  \<open>content_length and int(content_length) > self.max_file_size\<close>: a missing header
  (\<open>None\<close>) and an empty value are falsy and end the test; otherwise \<open>int\<close> runs and may
  raise.
\<close>

definition validate_response :: "response \<Rightarrow> exn + bool" where
  "validate_response r =
     (if status_code r \<noteq> 200 then Inr False
      else
        (let content_type = str_lower (headers_get_default (headers r) ''Content-Type'' []) in
         if \<not> startswith content_type ''image/'' then Inr False
         else
           (case headers_get (headers r) ''Content-Length'' of
              None \<Rightarrow> Inr True
            | Some content_length \<Rightarrow>
                if content_length = [] then Inr True
                else
                  (case py_int content_length of
                     Inl x \<Rightarrow> Inl x
                   | Inr n \<Rightarrow> if n > max_file_size then Inr False else Inr True))))"

subsection \<open>download_image\<close>

text \<open>
  The branch a call of \<open>download_image\<close> ends in, named after what it prints:
  \<open>Saved filepath\<close> is the only one that returns the path, the others return \<open>None\<close>.
\<close>

datatype outcome =
    UnsafeScheme
  | InvalidResponse
  | TooLarge
  | Duplicate
  | Saved string
  | ConnectionError exn
  | OtherError exn

definition return_value :: "outcome \<Rightarrow> string option" where
  "return_value out = (case out of Saved filepath \<Rightarrow> Some filepath | _ \<Rightarrow> None)"

text \<open>The loop over \<open>response.iter_content\<close> (lines 110 to 115).\<close>

datatype read_result = ReadDone bytes | ReadTooLarge | ReadRaised exn

fun read_chunks :: "chunk_event list \<Rightarrow> bytes \<Rightarrow> read_result" where
  "read_chunks [] content = ReadDone content"
| "read_chunks (StreamRaises x # rest) content = ReadRaised x"
| "read_chunks (Chunk chunk # rest) content =
     (if int (length (content @ chunk)) > max_file_size then ReadTooLarge
      else read_chunks rest (content @ chunk))"

text \<open>The loop that looks for a free path (lines 128 to 132).\<close>

definition numbered :: "string \<Rightarrow> string \<Rightarrow> nat \<Rightarrow> string" where
  "numbered base ext counter = base @ ''_'' @ str_of_nat counter @ ext"

definition taken_from :: "(string \<times> bytes) list \<Rightarrow> string \<Rightarrow> string \<Rightarrow> nat \<Rightarrow> nat set" where
  "taken_from fs base ext counter = {k. counter \<le> k \<and> path_exists fs (numbered base ext k)}"

function unique_filepath ::
    "(string \<times> bytes) list \<Rightarrow> string \<Rightarrow> string \<Rightarrow> nat \<Rightarrow> string \<Rightarrow> string" where
  "unique_filepath fs base ext counter filepath =
     (if path_exists fs filepath
      then unique_filepath fs base ext (counter + 1) (numbered base ext counter)
      else filepath)"
  by pat_completeness auto

text \<open>
  Lines 122 to 139: the file name, the free path, the write. The second component is
  the world as the statement that returned or raised left it.
\<close>

definition save_image ::
    "env \<Rightarrow> string \<Rightarrow> string \<Rightarrow> bytes \<Rightarrow> world \<Rightarrow> (exn + outcome) \<times> world" where
  "save_image e url content_type content w =
     (case get_filename_from_url e url content_type of
        Inl x \<Rightarrow> (Inl x, w)
      | Inr filename \<Rightarrow>
          (let filepath = path_join ''Fetched_Images'' filename;
               (base, ext) = splitext filepath;
               filepath' = unique_filepath (files w) base ext 1 filepath
           in case open_wb e filepath' content of
                OpenRaises x \<Rightarrow> (Inl x, w)
              | WriteRaises x n \<Rightarrow>
                  (Inl x, w\<lparr>files := write_file (files w) filepath' (take n content)\<rparr>)
              | Written \<Rightarrow>
                  (Inr (Saved filepath'), w\<lparr>files := write_file (files w) filepath' content\<rparr>)))"

text \<open>The body of the \<open>try\<close> statement (lines 98 to 139).\<close>

definition try_block :: "env \<Rightarrow> string \<Rightarrow> world \<Rightarrow> (exn + outcome) \<times> world" where
  "try_block e url w =
     (let w1 = w\<lparr>requests_made := requests_made w + 1\<rparr> in
      case requests_get e (requests_made w) url of
        Inl x \<Rightarrow> (Inl x, w1)
      | Inr response \<Rightarrow>
          (case validate_response response of
             Inl x \<Rightarrow> (Inl x, w1)
           | Inr False \<Rightarrow> (Inr InvalidResponse, w1)
           | Inr True \<Rightarrow>
               (case read_chunks (iter_content response) [] of
                  ReadRaised x \<Rightarrow> (Inl x, w1)
                | ReadTooLarge \<Rightarrow> (Inr TooLarge, w1)
                | ReadDone content \<Rightarrow>
                    (case is_duplicate_image content w1 of
                       (True, w2) \<Rightarrow> (Inr Duplicate, w2)
                     | (False, w2) \<Rightarrow>
                         save_image e url
                           (str_lower (headers_get_default (headers response) ''Content-Type'' []))
                           content w2))))"

text \<open>
  \<open>download_image\<close>: the safety check stands before the \<open>try\<close>, so what it raises
  leaves the function (\<open>Inl\<close>); what the body of the \<open>try\<close> raises is caught by one of
  the two handlers and becomes an outcome.
\<close>

definition download_image :: "env \<Rightarrow> string \<Rightarrow> world \<Rightarrow> exn + (outcome \<times> world)" where
  "download_image e url w =
     (case is_safe_url e url of
        Inl x \<Rightarrow> Inl x
      | Inr False \<Rightarrow> Inr (UnsafeScheme, w)
      | Inr True \<Rightarrow>
          (case try_block e url w of
             (Inr out, w') \<Rightarrow> Inr (out, w')
           | (Inl x, w') \<Rightarrow>
               if x = RequestException then Inr (ConnectionError x, w')
               else Inr (OtherError x, w')))"

subsection \<open>main\<close>

text \<open>\<open>if self.download_image(url)\<close>: \<open>None\<close> and the empty string are falsy.\<close>

definition truthy :: "string option \<Rightarrow> bool" where
  "truthy r = (case r of None \<Rightarrow> False | Some s \<Rightarrow> s \<noteq> [])"

text \<open>
  The loop of \<open>main\<close> (lines 165 to 168), with the outcomes of the URLs processed so far
  kept beside \<open>success_count\<close>. An exception that leaves \<open>download_image\<close> leaves the
  loop as well.
\<close>

fun process_urls ::
    "env \<Rightarrow> string list \<Rightarrow> nat \<Rightarrow> outcome list \<Rightarrow> world \<Rightarrow> exn + (nat \<times> outcome list \<times> world)" where
  "process_urls e [] success_count outs w = Inr (success_count, outs, w)"
| "process_urls e (url # urls) success_count outs w =
     (case download_image e url w of
        Inl x \<Rightarrow> Inl x
      | Inr (out, w') \<Rightarrow>
          process_urls e urls
            (if truthy (return_value out) then success_count + 1 else success_count)
            (outs @ [out]) w')"

text \<open>
  \<open>main\<close> from line 158 on, once the directory has been made, for the list \<open>urls\<close> that
  \<open>get_user_urls\<close> returned. With an empty list it returns at once and prints no summary
  line (\<open>None\<close>); otherwise it runs the loop and prints the summary line, of which the
  result holds the two numbers: \<open>success_count\<close> and \<open>len(urls)\<close>.
\<close>

definition main_summary :: "env \<Rightarrow> string list \<Rightarrow> world \<Rightarrow> exn + (nat \<times> nat) option" where
  "main_summary e urls w =
     (if urls = [] then Inr None
      else
        (case process_urls e urls 0 [] w of
           Inl x \<Rightarrow> Inl x
         | Inr (success_count, outs, w') \<Rightarrow> Inr (Some (success_count, length urls))))"

text \<open>A fresh fetcher in front of an empty directory.\<close>

definition initial_world :: world where
  "initial_world = \<lparr>downloaded_hashes = {}, files = [], requests_made = 0\<rparr>"

section \<open>The specification's notions and example environments\<close>

text \<open>
  The scheme of a URL as the specification speaks of it: the text before the first
  colon of the URL, once the parser has dropped leading control characters and spaces
  and every tab, carriage return and line feed.
\<close>

definition cleaned :: "string \<Rightarrow> string" where
  "cleaned url = remove_unsafe (lstrip_c0 url)"

definition scheme_text :: "string \<Rightarrow> string" where
  "scheme_text url =
     (if CHR '':'' \<in> set (cleaned url) then takeWhile (\<lambda>c. c \<noteq> CHR '':'') (cleaned url) else [])"

text \<open>
  The header of a given name, looked up without regard to case: the value of the last
  pair whose name matches.
\<close>

definition header_named :: "(string \<times> string) list \<Rightarrow> string \<Rightarrow> string option" where
  "header_named hs name =
     (let matching = filter (\<lambda>(k, v). str_lower k = str_lower name) hs in
      if matching = [] then None else Some (snd (last matching)))"

text \<open>Rule 2: the Content-Type header is present and starts with \<open>image/\<close>, whatever
  the case of its letters.\<close>

definition is_image_type :: "response \<Rightarrow> bool" where
  "is_image_type r =
     (case header_named (headers r) ''Content-Type'' of
        None \<Rightarrow> False
      | Some v \<Rightarrow> startswith (str_lower v) ''image/'')"

text \<open>What the Content-Length header declares: nothing (no header, or an empty value),
  an integer, or a text that \<open>int\<close> rejects.\<close>

datatype declared_length = NoLength | Length int | BadLength

definition declared_length :: "response \<Rightarrow> declared_length" where
  "declared_length r =
     (case header_named (headers r) ''Content-Length'' of
        None \<Rightarrow> NoLength
      | Some v \<Rightarrow> if v = [] then NoLength
                  else (case py_int v of Inl x \<Rightarrow> BadLength | Inr n \<Rightarrow> Length n))"

text \<open>
  The three rules of the validator as the specification words them; the third one
  speaks only of a Content-Length that is present and parses as an integer.
\<close>

definition spec_accepts :: "response \<Rightarrow> bool" where
  "spec_accepts r =
     (status_code r = 200 \<and> is_image_type r \<and>
      (case header_named (headers r) ''Content-Length'' of
         None \<Rightarrow> True
       | Some v \<Rightarrow> (case py_int v of Inl x \<Rightarrow> True | Inr n \<Rightarrow> n \<le> max_file_size)))"

text \<open>A response with status 200, and an environment that serves a fixed table of
  responses (any other URL does not connect) and writes as \<open>wr\<close> says.\<close>

definition image_response :: "(string \<times> string) list \<Rightarrow> chunk_event list \<Rightarrow> response" where
  "image_response hs cs = \<lparr>status_code = 200, headers = hs, iter_content = cs\<rparr>"

definition serving :: "(string \<times> response) list \<Rightarrow> (string \<Rightarrow> bytes \<Rightarrow> write_result) \<Rightarrow> env" where
  "serving table wr =
     \<lparr>requests_get = (\<lambda>k url. case map_of table url of None \<Rightarrow> Inl RequestException | Some r \<Rightarrow> Inr r),
      open_wb = wr,
      check_bracketed_host = (\<lambda>h. True)\<rparr>"

definition always_written :: "string \<Rightarrow> bytes \<Rightarrow> write_result" where
  "always_written p c = Written"

text \<open>A valid PNG response that delivers its body in one chunk.\<close>

definition png :: "bytes \<Rightarrow> response" where
  "png body = image_response [(''Content-Type'', ''image/png'')] [Chunk body]"

text \<open>Two ways for every write to fail: at \<open>open\<close>, or after two bytes.\<close>

definition open_fails :: "string \<Rightarrow> bytes \<Rightarrow> write_result" where
  "open_fails p c = OpenRaises OSError"

definition write_fails :: "string \<Rightarrow> bytes \<Rightarrow> write_result" where
  "write_fails p c = WriteRaises OSError 2"

text \<open>A valid JPEG response that delivers its body in one chunk.\<close>

definition jpeg :: "bytes \<Rightarrow> response" where
  "jpeg body = image_response [(''Content-Type'', ''image/jpeg'')] [Chunk body]"

text \<open>A body of one byte more than the size limit.\<close>

definition big_body :: bytes where
  "big_body = replicate 10485761 0"

text \<open>
  The download of \<open>url\<close> in the world \<open>w\<close> gets as far as the duplicate check, with the
  body \<open>b\<close>: the URL is safe, the request returns a response, the response is valid and
  its stream ends, within the size limit, with \<open>b\<close> accumulated.
\<close>

definition yields_body :: "env \<Rightarrow> string \<Rightarrow> world \<Rightarrow> bytes \<Rightarrow> bool" where
  "yields_body e url w b =
     (is_safe_url e url = Inr True \<and>
      (\<exists>r. requests_get e (requests_made w) url = Inr r \<and> validate_response r = Inr True
           \<and> read_chunks (iter_content r) [] = ReadDone b))"



text \<open>What the two handlers of \<open>download_image\<close> make of an exception.\<close>

definition handled :: "exn \<Rightarrow> outcome" where
  "handled x = (if x = RequestException then ConnectionError x else OtherError x)"

text \<open>An environment without network: every request fails, every write succeeds.\<close>

definition offline_env :: env where
  "offline_env = \<lparr>requests_get = (\<lambda>k url. Inl RequestException), open_wb = (\<lambda>p c. Written),
                   check_bracketed_host = (\<lambda>h. True)\<rparr>"

text \<open>
  The last path segment: the text of the path after its last slash, the whole path when it
  has no slash.
\<close>

definition last_segment :: "string \<Rightarrow> string" where
  "last_segment p = rev (takeWhile (\<lambda>c. c \<noteq> CHR ''/'') (rev p))"

text \<open>
  A segment has an extension when a dot stands in it after a character that is not a
  dot: the dots that open the segment do not count.
\<close>

definition has_extension :: "string \<Rightarrow> bool" where
  "has_extension seg = (CHR ''.'' \<in> set (dropWhile (\<lambda>c. c = CHR ''.'') seg))"

text \<open>The outcomes that count as a success.\<close>

definition is_saved :: "outcome \<Rightarrow> bool" where
  "is_saved out = (case out of Saved filepath \<Rightarrow> True | _ \<Rightarrow> False)"

text \<open>
  The path that lines 122 to 132 arrive at when the download of \<open>url\<close> in the world \<open>w\<close>
  gets that far: the file name derived from the URL and the content type of the
  response, joined to the directory, and moved to the first free numbered path.
\<close>

definition target_path :: "env \<Rightarrow> string \<Rightarrow> world \<Rightarrow> string option" where
  "target_path e url w =
     (case requests_get e (requests_made w) url of
        Inl x \<Rightarrow> None
      | Inr response \<Rightarrow>
          (case get_filename_from_url e url
                  (str_lower (headers_get_default (headers response) ''Content-Type'' [])) of
             Inl x \<Rightarrow> None
           | Inr filename \<Rightarrow>
               (let filepath = path_join ''Fetched_Images'' filename;
                    (base, ext) = splitext filepath
                in Some (unique_filepath (files w) base ext 1 filepath))))"

section \<open>Termination of the search for a free path\<close>

text \<open>
  The directory holds finitely many paths and the numbered candidates are pairwise
  different, so the loop of \<open>unique_filepath\<close> meets a free one.
\<close>

lemma dec_value_str_of_nat: "dec_value (str_of_nat n) = int n"
proof (induction n rule: str_of_nat.induct)
  case (1 n)
  show ?case
  proof (cases "n < 10")
    case True
    then show ?thesis
      by (subst str_of_nat.simps) (simp add: dec_value_def digit_char_def ord_def)
  next
    case False
    with 1 have ih: "dec_value (str_of_nat (n div 10)) = int (n div 10)" by simp
    have m: "n mod 10 < 10" by simp
    from False ih show ?thesis
      apply (subst str_of_nat.simps)
      apply (simp add: dec_value_def digit_char_def ord_def)
      using m by (simp add: zmod_int zdiv_int)
  qed
qed

lemma inj_str_of_nat: "inj str_of_nat"
  by (rule inj_on_inverseI [where g = "\<lambda>s. nat (dec_value s)"]) (simp add: dec_value_str_of_nat)

lemma inj_numbered: "inj (numbered base ext)"
  using inj_str_of_nat by (auto simp: inj_def numbered_def)

lemma finite_numbered_existing: "finite {k. path_exists fs (numbered base ext k)}"
proof -
  have "{k. path_exists fs (numbered base ext k)} = numbered base ext -` set (map fst fs)"
    by (auto simp: path_exists_def)
  then show ?thesis
    by (simp add: finite_vimageI inj_numbered)
qed

lemma finite_taken_from: "finite (taken_from fs base ext counter)"
  unfolding taken_from_def using finite_numbered_existing [of fs base ext] by simp

lemma taken_from_Suc:
  "taken_from fs base ext counter =
     (if path_exists fs (numbered base ext counter)
      then insert counter (taken_from fs base ext (Suc counter))
      else taken_from fs base ext (Suc counter))"
  unfolding taken_from_def by (auto simp: Suc_le_eq le_less)

lemma unique_filepath_measure:
  "2 * card (taken_from fs base ext (Suc counter))
     + (if path_exists fs (numbered base ext counter) then 1 else 0)
   < 2 * card (taken_from fs base ext counter) + (1::nat)"
proof -
  have "counter \<notin> taken_from fs base ext (Suc counter)"
    by (simp add: taken_from_def)
  then show ?thesis
    by (subst (2) taken_from_Suc) (simp add: finite_taken_from)
qed

termination unique_filepath
  apply (relation "measure (\<lambda>(fs, base, ext, counter, filepath).
         2 * card (taken_from fs base ext counter) + (if path_exists fs filepath then 1 else 0))")
   apply simp
  using unique_filepath_measure apply simp
  done

declare unique_filepath.simps [simp del]

section \<open>URL safety\<close>

lemma ord_less_256: "ord c < 256"
  by (simp add: ord_def)

lemma ord_eq_iff: "ord c = ord d \<longleftrightarrow> c = d"
  by (simp add: ord_def)

lemma ord_lower_char:
  "ord (lower_char c) =
     (if (65 \<le> ord c \<and> ord c \<le> 90) \<or> (192 \<le> ord c \<and> ord c \<le> 222 \<and> ord c \<noteq> 215)
      then ord c + 32 else ord c)"
proof -
  have "ord (char_of (ord c + 32)) = (ord c + 32) mod 256"
    by (simp add: ord_def)
  then show ?thesis
    by (auto simp: lower_char_def)
qed

lemma lower_char_eq_ascii_lower:
  assumes "97 \<le> ord d" "ord d \<le> 122"
  shows "lower_char c = d \<longleftrightarrow> ord c = ord d \<or> ord c + 32 = ord d"
proof -
  have "lower_char c = d \<longleftrightarrow> ord (lower_char c) = ord d"
    by (simp add: ord_eq_iff)
  also have "\<dots> \<longleftrightarrow> ord c = ord d \<or> ord c + 32 = ord d"
    using assms by (auto simp: ord_lower_char)
  finally show ?thesis .
qed

lemma lower_char_eq_letter:
  assumes "97 \<le> ord d" "ord d \<le> 122" "ord u + 32 = ord d"
  shows "lower_char c = d \<longleftrightarrow> c = d \<or> c = u"
proof -
  have "ord c + 32 = ord d \<longleftrightarrow> ord c = ord u"
    using assms(3) by arith
  then show ?thesis
    using lower_char_eq_ascii_lower [OF assms(1,2), of c] by (simp add: ord_eq_iff)
qed

lemma lower_char_ascii_cases:
  "lower_char c = CHR ''h'' \<longleftrightarrow> c = CHR ''h'' \<or> c = CHR ''H''"
  "lower_char c = CHR ''t'' \<longleftrightarrow> c = CHR ''t'' \<or> c = CHR ''T''"
  "lower_char c = CHR ''p'' \<longleftrightarrow> c = CHR ''p'' \<or> c = CHR ''P''"
  "lower_char c = CHR ''s'' \<longleftrightarrow> c = CHR ''s'' \<or> c = CHR ''S''"
  by (rule lower_char_eq_letter; simp add: ord_def)+

lemma lower_char_colon: "lower_char c = CHR '':'' \<longleftrightarrow> c = CHR '':''"
proof -
  have "lower_char c = CHR '':'' \<longleftrightarrow> ord (lower_char c) = ord (CHR '':'')"
    by (simp add: ord_eq_iff)
  also have "\<dots> \<longleftrightarrow> ord c = ord (CHR '':'')"
    by (auto simp: ord_lower_char) (simp_all add: ord_def)
  finally show ?thesis by (simp add: ord_eq_iff)
qed


lemma lower_char_idem: "lower_char (lower_char c) = lower_char c"
proof -
  have "ord (lower_char (lower_char c)) = ord (lower_char c)"
    by (simp add: ord_lower_char)
  then show ?thesis by (simp only: ord_eq_iff)
qed

lemma str_lower_idem: "str_lower (str_lower s) = str_lower s"
  by (simp add: str_lower_def lower_char_idem)

lemma http_letter_ok:
  assumes "lower_char c \<in> set ''https''"
  shows "c \<in> set scheme_chars \<and> is_ascii_alpha c"
proof -
  from assms have "c \<in> set ''hHtTpPsS''"
    by (auto simp: lower_char_ascii_cases)
  then show ?thesis
    by (auto simp: scheme_chars_def is_ascii_alpha_def ord_def)
qed

lemma http_word_ok:
  assumes "str_lower t = ''http'' \<or> str_lower t = ''https''"
  shows "t \<noteq> [] \<and> is_ascii_alpha (hd t) \<and> list_all (\<lambda>c. c \<in> set scheme_chars) t"
proof -
  have "set (str_lower t) \<subseteq> set ''https''"
    using assms by auto
  then have all: "\<forall>c \<in> set t. lower_char c \<in> set ''https''"
    by (auto simp: str_lower_def)
  from assms have ne: "t \<noteq> []"
    by (auto simp: str_lower_def)
  then have "hd t \<in> set t" by simp
  with all ne show ?thesis
    using http_letter_ok by (auto simp: list_all_iff)
qed

lemma split_scheme_http:
  "fst (split_scheme u) = ''http'' \<or> fst (split_scheme u) = ''https'' \<longleftrightarrow>
     CHR '':'' \<in> set u \<and>
     (str_lower (takeWhile (\<lambda>c. c \<noteq> CHR '':'') u) = ''http''
      \<or> str_lower (takeWhile (\<lambda>c. c \<noteq> CHR '':'') u) = ''https'')"
proof (cases "CHR '':'' \<in> set u")
  case False
  then show ?thesis
    by (simp add: split_scheme_def str_find_def)
next
  case True
  define t where "t = takeWhile (\<lambda>c. c \<noteq> CHR '':'') u"
  have st: "slice_to u (str_find u CHR '':'') = t"
    using True by (simp add: slice_to_def clip_index_def str_find_def t_def takeWhile_eq_take [symmetric])
  have hd: "t \<noteq> [] \<Longrightarrow> hd u = hd t"
    unfolding t_def by (cases u) auto
  have pos: "str_find u CHR '':'' > 0 \<longleftrightarrow> t \<noteq> []"
    using True by (simp add: str_find_def t_def)
  show ?thesis
  proof (cases "str_lower t = ''http'' \<or> str_lower t = ''https''")
    case good: True
    from http_word_ok [OF good] hd pos st True good show ?thesis
      by (auto simp: split_scheme_def Let_def t_def [symmetric])
  next
    case bad: False
    with True st show ?thesis
      by (auto simp: split_scheme_def Let_def t_def [symmetric])
  qed
qed


lemma urlparse_scheme:
  assumes "urlparse e url = Inr p"
  shows "scheme p = fst (split_scheme (cleaned url))"
  using assms
  by (auto simp: urlparse_def urlsplit_def cleaned_def Let_def split: sum.splits prod.splits if_splits)

lemma split_scheme_lower: "str_lower (fst (split_scheme u)) = fst (split_scheme u)"
  by (simp add: split_scheme_def Let_def str_lower_idem) (simp add: str_lower_def)

lemma urlparse_open_bracket: "urlparse e ''http://['' = Inl ValueError"
  by (simp add: urlparse_def urlsplit_def remove_unsafe_def lstrip_c0_def split_scheme_def
      str_find_def slice_to_def slice_from_def clip_index_def is_ascii_alpha_def scheme_chars_def
      ord_def str_lower_def lower_char_def splitnetloc_def)

lemma urlparse_upper_http:
  "urlparse offline_env ''HTTP://example.test/a.png'' =
     Inr \<lparr>scheme = ''http'', netloc = ''example.test'', path = ''/a.png'', params = [],
          query = [], fragment = []\<rparr>"
  by code_simp

lemma scheme_text_upper_http: "str_lower (scheme_text ''HTTP://example.test/a.png'') = ''http''"
  by code_simp

text \<open>
  C2, as amended. For every URL string that the parser accepts, \<open>is_safe_url\<close> returns a
  boolean, and it is true exactly when the scheme, compared without regard to case, is
  \<open>http\<close> or \<open>https\<close>: both for the scheme field of the parse result and for the
  text before the first colon of the URL.
\<close>

theorem is_safe_url_scheme:
  assumes "urlparse e url = Inr p"
  shows "is_safe_url e url = Inr (str_lower (scheme p) = ''http'' \<or> str_lower (scheme p) = ''https'')
       \<and> ((str_lower (scheme p) = ''http'' \<or> str_lower (scheme p) = ''https'')
            = (str_lower (scheme_text url) = ''http'' \<or> str_lower (scheme_text url) = ''https''))"
proof -
  have sch: "scheme p = fst (split_scheme (cleaned url))"
    by (rule urlparse_scheme [OF assms])
  have low: "str_lower (scheme p) = scheme p"
    by (simp add: sch split_scheme_lower)
  have "is_safe_url e url = Inr (scheme p = ''http'' \<or> scheme p = ''https'')"
    using assms by (simp add: is_safe_url_def)
  moreover have "(scheme p = ''http'' \<or> scheme p = ''https'')
      = (str_lower (scheme_text url) = ''http'' \<or> str_lower (scheme_text url) = ''https'')"
    unfolding sch split_scheme_http scheme_text_def by (auto simp: str_lower_def)
  ultimately show ?thesis
    by (simp add: low)
qed

theorem is_safe_url_scheme_witness:
  "urlparse offline_env ''HTTP://example.test/a.png'' =
     Inr \<lparr>scheme = ''http'', netloc = ''example.test'', path = ''/a.png'', params = [],
          query = [], fragment = []\<rparr>
   \<and> is_safe_url offline_env ''HTTP://example.test/a.png'' = Inr True
   \<and> str_lower (scheme_text ''HTTP://example.test/a.png'') = ''http''"
  using is_safe_url_scheme [OF urlparse_upper_http] urlparse_upper_http scheme_text_upper_http
  by simp

text \<open>
  C2 as stated fails: on a URL whose network location opens a square bracket and never
  closes it the parser raises \<open>ValueError\<close>, and \<open>is_safe_url\<close> raises with it instead
  of returning false.
\<close>

theorem is_safe_url_raises_counterexample:
  "is_safe_url offline_env ''http://['' = Inl ValueError"
  by (simp add: is_safe_url_def urlparse_open_bracket)

text \<open>
  C1. The safety check runs before the \<open>try\<close> statement, so the \<open>ValueError\<close> of the
  parser leaves \<open>download_image\<close> unhandled, and the loop of \<open>main\<close> stops there: the
  URLs after it are never processed.
\<close>

theorem unparsable_url_escapes:
  "download_image e ''http://['' w = Inl ValueError
   \<and> process_urls e (''http://['' # urls) n outs w = Inl ValueError"
  by (simp add: download_image_def is_safe_url_def urlparse_open_bracket)

section \<open>Response validation\<close>

lemma headers_get_header_named: "headers_get hs name = header_named hs name"
proof (induction hs rule: rev_induct)
  case Nil
  show ?case by (simp add: headers_get_def header_named_def)
next
  case (snoc x xs)
  obtain k v where x: "x = (k, v)" by (cases x)
  show ?case
  proof (cases "str_lower k = str_lower name")
    case True
    then show ?thesis
      by (simp add: headers_get_def header_named_def x)
  next
    case False
    with snoc show ?thesis
      by (simp add: headers_get_def header_named_def x)
  qed
qed

lemma py_int_raises_ValueError: "py_int v = Inl x \<Longrightarrow> x = ValueError"
  by (auto simp: py_int_def Let_def split: prod.splits if_splits)

lemma startswith_Nil_image: "\<not> startswith (str_lower []) ''image/''"
  by (simp add: startswith_def str_lower_def)

lemma validate_response_outcomes:
  "(validate_response r = Inr True \<longleftrightarrow>
      status_code r = 200 \<and> is_image_type r
      \<and> (declared_length r = NoLength
          \<or> (\<exists>n. declared_length r = Length n \<and> n \<le> max_file_size)))
   \<and> (validate_response r = Inr False \<longleftrightarrow>
      (status_code r = 200 \<and> is_image_type r
        \<and> (\<exists>n. declared_length r = Length n \<and> n > max_file_size))
      \<or> (status_code r = 200 \<and> \<not> is_image_type r)
      \<or> status_code r \<noteq> 200)
   \<and> (validate_response r = Inl ValueError \<longleftrightarrow>
      status_code r = 200 \<and> is_image_type r \<and> declared_length r = BadLength)"
  by (auto simp: validate_response_def is_image_type_def declared_length_def Let_def
      headers_get_default_def headers_get_header_named startswith_Nil_image
      dest: py_int_raises_ValueError
      split: option.splits sum.splits if_splits)

lemma png_1024_facts:
  "is_image_type (image_response [(''content-type'', ''Image/PNG''), (''CONTENT-LENGTH'', ''1024'')] cs)"
  "declared_length (image_response [(''content-type'', ''Image/PNG''), (''CONTENT-LENGTH'', ''1024'')] cs)
     = Length 1024"
  by code_simp+

text \<open>
  C4, as amended. \<open>validate_response\<close> accepts exactly when the status is 200, the
  Content-Type header (its name found whatever its case) starts with \<open>image/\<close>
  whatever its case, and the Content-Length header is missing, empty, or an integer
  within the size limit. It rejects exactly when the status is not 200, or else the
  content type is not an image, or else the declared length is an integer above the
  limit: the rules apply in this order, and a later header is not looked at once an
  earlier rule has failed. In the one remaining case, a Content-Length that \<open>int\<close>
  rejects after the first two rules have passed, it raises \<open>ValueError\<close>.
\<close>

theorem validate_response_cases:
  "(validate_response r = Inr True \<longleftrightarrow>
      status_code r = 200 \<and> is_image_type r
      \<and> (declared_length r = NoLength
          \<or> (\<exists>n. declared_length r = Length n \<and> n \<le> max_file_size)))
   \<and> (validate_response r = Inr False \<longleftrightarrow>
      (status_code r = 200 \<and> is_image_type r
        \<and> (\<exists>n. declared_length r = Length n \<and> n > max_file_size))
      \<or> (status_code r = 200 \<and> \<not> is_image_type r)
      \<or> status_code r \<noteq> 200)
   \<and> (validate_response r = Inl ValueError \<longleftrightarrow>
      status_code r = 200 \<and> is_image_type r \<and> declared_length r = BadLength)"
  by (rule validate_response_outcomes)

theorem validate_response_cases_witness:
  "validate_response (image_response [(''content-type'', ''Image/PNG''), (''CONTENT-LENGTH'', ''1024'')] [])
     = Inr True
   \<and> declared_length (image_response [(''content-type'', ''Image/PNG''), (''CONTENT-LENGTH'', ''1024'')] [])
     = Length 1024"
  using validate_response_cases
          [of "image_response [(''content-type'', ''Image/PNG''), (''CONTENT-LENGTH'', ''1024'')] []"]
        png_1024_facts [of "[]"]
  by (simp add: image_response_def max_file_size_def)

text \<open>
  C4 as stated fails: a response with status 200, an image type and the Content-Length
  \<open>abc\<close> satisfies the three rules as worded (the third speaks only of a length that
  parses), yet \<open>validate_response\<close> does not accept it: it raises.
\<close>

theorem unparsable_length_counterexample:
  "spec_accepts (image_response [(''Content-Type'', ''image/png''), (''Content-Length'', ''abc'')] [])
   \<and> validate_response (image_response [(''Content-Type'', ''image/png''), (''Content-Length'', ''abc'')] [])
       = Inl ValueError"
  by code_simp

section \<open>The download pipeline\<close>

lemmas urlparse_eval =
  urlparse_def urlsplit_def remove_unsafe_def lstrip_c0_def split_scheme_def
  str_find_def slice_to_def slice_from_def clip_index_def is_ascii_alpha_def scheme_chars_def
  ord_def str_lower_def lower_char_def splitnetloc_def uses_params_def split_once_def

lemma urlparse_a_png:
  "urlparse e ''http://example.test/a.png'' =
     Inr \<lparr>scheme = ''http'', netloc = ''example.test'', path = ''/a.png'', params = [],
          query = [], fragment = []\<rparr>"
  by (simp add: urlparse_eval)

lemma is_safe_a_png: "is_safe_url e ''http://example.test/a.png'' = Inr True"
  by (simp add: is_safe_url_def urlparse_a_png)

lemma path_facts_a_png:
  "basename ''/a.png'' = ''a.png''"
  "splitext ''a.png'' = (''a'', ''.png'')"
  "path_join ''Fetched_Images'' ''a.png'' = ''Fetched_Images/a.png''"
  "splitext ''Fetched_Images/a.png'' = (''Fetched_Images/a'', ''.png'')"
  by code_simp+

lemma filename_a_png: "get_filename_from_url e ''http://example.test/a.png'' ct = Inr ''a.png''"
  by (simp add: get_filename_from_url_def urlparse_a_png path_facts_a_png)

lemma serving_get:
  "requests_get (serving table wr) k url =
     (case map_of table url of None \<Rightarrow> Inl RequestException | Some r \<Rightarrow> Inr r)"
  "open_wb (serving table wr) = wr"
  by (simp_all add: serving_def)

lemma image_response_sel:
  "status_code (image_response hs cs) = 200"
  "headers (image_response hs cs) = hs"
  "iter_content (image_response hs cs) = cs"
  by (simp_all add: image_response_def)

lemma length_big_body: "length big_body = 10485761"
  by (simp only: big_body_def length_replicate)

lemma read_chunks_within_budget:
  assumes "int (length (content @ concat pre)) \<le> max_file_size"
  shows "read_chunks (map Chunk pre @ rest) content = read_chunks rest (content @ concat pre)"
  using assms
proof (induction pre arbitrary: content)
  case Nil
  then show ?case by simp
next
  case (Cons c pre)
  from Cons.prems have "int (length (content @ c)) \<le> max_file_size"
    by simp
  with Cons show ?case
    by simp
qed

lemma read_chunks_crossing:
  assumes "int (length (concat pre)) \<le> max_file_size"
      and "int (length (concat pre @ c)) > max_file_size"
  shows "read_chunks (map Chunk pre @ Chunk c # rest) [] = ReadTooLarge"
  using assms read_chunks_within_budget [of "[]" pre "Chunk c # rest"]
  by simp

lemma read_chunks_all:
  assumes "int (length (concat cs)) \<le> max_file_size"
  shows "read_chunks (map Chunk cs) [] = ReadDone (concat cs)"
  using assms read_chunks_within_budget [of "[]" cs "[]"]
  by simp

lemma download_image_new_content:
  assumes safe: "is_safe_url e url = Inr True"
      and get: "requests_get e (requests_made w) url = Inr r"
      and valid: "validate_response r = Inr True"
      and read: "read_chunks (iter_content r) [] = ReadDone content"
      and fresh: "md5_hexdigest content \<notin> downloaded_hashes w"
      and name: "get_filename_from_url e url
                   (str_lower (headers_get_default (headers r) ''Content-Type'' [])) = Inr filename"
      and split: "splitext (path_join ''Fetched_Images'' filename) = (base, ext)"
      and free: "unique_filepath (files w) base ext 1 (path_join ''Fetched_Images'' filename) = fp"
  shows "download_image e url w =
     (case open_wb e fp content of
        Written \<Rightarrow>
          Inr (Saved fp,
               w\<lparr>downloaded_hashes := insert (md5_hexdigest content) (downloaded_hashes w),
                  files := write_file (files w) fp content,
                  requests_made := requests_made w + 1\<rparr>)
      | OpenRaises x \<Rightarrow>
          Inr (handled x,
               w\<lparr>downloaded_hashes := insert (md5_hexdigest content) (downloaded_hashes w),
                  requests_made := requests_made w + 1\<rparr>)
      | WriteRaises x n \<Rightarrow>
          Inr (handled x,
               w\<lparr>downloaded_hashes := insert (md5_hexdigest content) (downloaded_hashes w),
                  files := write_file (files w) fp (take n content),
                  requests_made := requests_made w + 1\<rparr>))"
  using assms
  by (simp add: download_image_def try_block_def is_duplicate_image_def save_image_def handled_def
      split: write_result.splits)

lemma download_image_seen_content:
  assumes safe: "is_safe_url e url = Inr True"
      and get: "requests_get e (requests_made w) url = Inr r"
      and valid: "validate_response r = Inr True"
      and read: "read_chunks (iter_content r) [] = ReadDone content"
      and seen: "md5_hexdigest content \<in> downloaded_hashes w"
  shows "download_image e url w = Inr (Duplicate, w\<lparr>requests_made := requests_made w + 1\<rparr>)"
  using assms
  by (simp add: download_image_def try_block_def is_duplicate_image_def)

text \<open>
  C3, as amended. For every response that passed validation and whose body, accumulated
  chunk by chunk, exceeds the limit of 10 MiB: the loop stops at the chunk that crosses
  the limit, whatever the stream would have produced after it; the outcome is
  \<open>TooLarge\<close>; the set of hashes and the files are as before, so the buffer is
  dropped and nothing is written.
\<close>

theorem streamed_size_ceiling:
  assumes safe: "is_safe_url e url = Inr True"
      and get: "requests_get e (requests_made w) url = Inr r"
      and valid: "validate_response r = Inr True"
      and stream: "iter_content r = map Chunk pre @ Chunk c # rest"
      and below: "int (length (concat pre)) \<le> max_file_size"
      and cross: "int (length (concat pre @ c)) > max_file_size"
  shows "download_image e url w = Inr (TooLarge, w\<lparr>requests_made := requests_made w + 1\<rparr>)"
  using safe get valid stream read_chunks_crossing [OF below cross]
  by (simp add: download_image_def try_block_def)

lemma validate_png_only:
  "validate_response (image_response [(''Content-Type'', ''image/png'')] cs) = Inr True"
  by code_simp

lemma validate_declared_oversize:
  "validate_response
     (image_response [(''Content-Type'', ''image/png''), (''Content-Length'', ''10485761'')] cs)
   = Inr False"
  by code_simp

theorem streamed_size_ceiling_witness:
  "download_image
     (serving [(''http://example.test/a.png'',
                image_response [(''Content-Type'', ''image/png'')]
                  (map Chunk [[1, 2, 3]] @ Chunk big_body # [StreamRaises RequestException]))]
        always_written)
     ''http://example.test/a.png'' initial_world
   = Inr (TooLarge, initial_world\<lparr>requests_made := requests_made initial_world + 1\<rparr>)"
  by (rule streamed_size_ceiling [where r = "image_response [(''Content-Type'', ''image/png'')]
                  (map Chunk [[1, 2, 3]] @ Chunk big_body # [StreamRaises RequestException])"
                  and pre = "[[1, 2, 3]]" and c = big_body and rest = "[StreamRaises RequestException]"])
     (simp_all add: is_safe_a_png serving_get validate_png_only length_big_body max_file_size_def
        image_response_sel)

text \<open>
  C3 as stated fails: validation runs before the body is read. A response that declares
  its 10485761 bytes in Content-Length is rejected as an invalid response; the outcome
  is not \<open>TooLarge\<close>, and no chunk is read at all.
\<close>

theorem declared_oversize_counterexample:
  "int (length big_body) > max_file_size
   \<and> download_image
       (serving [(''http://example.test/a.png'',
                  image_response [(''Content-Type'', ''image/png''), (''Content-Length'', ''10485761'')]
                    [Chunk big_body])]
          always_written)
       ''http://example.test/a.png'' initial_world
     = Inr (InvalidResponse, initial_world\<lparr>requests_made := 1\<rparr>)"
  by (simp add: download_image_def try_block_def is_safe_a_png serving_get validate_declared_oversize
      length_big_body max_file_size_def initial_world_def)

subsection \<open>A Content-Length that is no integer\<close>

text \<open>
  C10, as amended. For every response with status 200 and an image content type whose
  Content-Length header is present, not empty, and rejected by \<open>int\<close>: validation
  raises \<open>ValueError\<close>, the second handler catches it, and the outcome is the
  unclassified failure; the set of hashes and the files are as before.
\<close>

theorem bad_content_length_is_generic_failure:
  assumes safe: "is_safe_url e url = Inr True"
      and get: "requests_get e (requests_made w) url = Inr r"
      and status: "status_code r = 200"
      and image: "is_image_type r"
      and bad: "declared_length r = BadLength"
  shows "validate_response r = Inl ValueError
       \<and> download_image e url w = Inr (OtherError ValueError, w\<lparr>requests_made := requests_made w + 1\<rparr>)"
proof -
  have "validate_response r = Inl ValueError"
    using validate_response_outcomes [of r] status image bad by simp
  with safe get show ?thesis
    by (simp add: download_image_def try_block_def)
qed

lemma abc_length_facts:
  "is_image_type (image_response [(''Content-Type'', ''image/png''), (''Content-Length'', ''abc'')] cs)"
  "declared_length (image_response [(''Content-Type'', ''image/png''), (''Content-Length'', ''abc'')] cs)
     = BadLength"
  by code_simp+

theorem bad_content_length_is_generic_failure_witness:
  "download_image
     (serving [(''http://example.test/a.png'',
                image_response [(''Content-Type'', ''image/png''), (''Content-Length'', ''abc'')]
                  [Chunk [1, 2, 3]])]
        always_written)
     ''http://example.test/a.png'' initial_world
   = Inr (OtherError ValueError, initial_world\<lparr>requests_made := requests_made initial_world + 1\<rparr>)"
  using bad_content_length_is_generic_failure
          [where e = "serving [(''http://example.test/a.png'',
                image_response [(''Content-Type'', ''image/png''), (''Content-Length'', ''abc'')]
                  [Chunk [1, 2, 3]])] always_written"
             and url = "''http://example.test/a.png''" and w = initial_world
             and r = "image_response [(''Content-Type'', ''image/png''), (''Content-Length'', ''abc'')]
                  [Chunk [1, 2, 3]]"]
  by (simp add: is_safe_a_png serving_get abc_length_facts image_response_sel)

lemma validate_empty_length:
  "validate_response (image_response [(''Content-Type'', ''image/png''), (''Content-Length'', [])] cs)
     = Inr True"
  "headers_get [(''Content-Type'', ''image/png''), (''Content-Length'', [])] ''Content-Length'' = Some []"
  by code_simp+

lemma unique_filepath_free: "\<not> path_exists fs filepath \<Longrightarrow> unique_filepath fs base ext counter filepath = filepath"
  by (simp add: unique_filepath.simps)

text \<open>
  C10 as stated fails for the empty header value: it is no decimal integer, but the
  test \<open>content_length and ...\<close> takes it for a missing header, \<open>int\<close> is never
  called, and the image is saved.
\<close>

theorem empty_content_length_counterexample:
  "headers_get [(''Content-Type'', ''image/png''), (''Content-Length'', [])] ''Content-Length'' = Some []
   \<and> download_image
       (serving [(''http://example.test/a.png'',
                  image_response [(''Content-Type'', ''image/png''), (''Content-Length'', [])]
                    [Chunk [1, 2, 3]])]
          always_written)
       ''http://example.test/a.png'' initial_world
     = Inr (Saved ''Fetched_Images/a.png'',
            \<lparr>downloaded_hashes = {md5_hexdigest [1, 2, 3]},
             files = [(''Fetched_Images/a.png'', [1, 2, 3])],
             requests_made = 1\<rparr>)"
proof -
  let ?r = "image_response [(''Content-Type'', ''image/png''), (''Content-Length'', [])] [Chunk [1, 2, 3]]"
  let ?e = "serving [(''http://example.test/a.png'', ?r)] always_written"
  have "download_image ?e ''http://example.test/a.png'' initial_world =
     (case open_wb ?e ''Fetched_Images/a.png'' [1, 2, 3] of
        Written \<Rightarrow>
          Inr (Saved ''Fetched_Images/a.png'',
               initial_world\<lparr>downloaded_hashes := insert (md5_hexdigest [1, 2, 3]) (downloaded_hashes initial_world),
                  files := write_file (files initial_world) ''Fetched_Images/a.png'' [1, 2, 3],
                  requests_made := requests_made initial_world + 1\<rparr>)
      | OpenRaises x \<Rightarrow>
          Inr (handled x,
               initial_world\<lparr>downloaded_hashes := insert (md5_hexdigest [1, 2, 3]) (downloaded_hashes initial_world),
                  requests_made := requests_made initial_world + 1\<rparr>)
      | WriteRaises x n \<Rightarrow>
          Inr (handled x,
               initial_world\<lparr>downloaded_hashes := insert (md5_hexdigest [1, 2, 3]) (downloaded_hashes initial_world),
                  files := write_file (files initial_world) ''Fetched_Images/a.png'' (take n [1, 2, 3]),
                  requests_made := requests_made initial_world + 1\<rparr>))"
    by (rule download_image_new_content [where r = ?r and filename = "''a.png''"
          and base = "''Fetched_Images/a''" and ext = "''.png''"])
       (simp_all add: is_safe_a_png serving_get validate_empty_length image_response_sel
          max_file_size_def initial_world_def filename_a_png path_facts_a_png
          unique_filepath_free path_exists_def)
  then show ?thesis
    by (simp add: serving_get always_written_def initial_world_def write_file_def validate_empty_length)
qed

section \<open>Duplicates, files and the free path\<close>

lemma is_duplicate_image_eq:
  "is_duplicate_image content w =
     (md5_hexdigest content \<in> downloaded_hashes w,
      w\<lparr>downloaded_hashes := insert (md5_hexdigest content) (downloaded_hashes w)\<rparr>)"
  by (simp add: is_duplicate_image_def Let_def insert_absorb)


lemma return_value_handled: "return_value (handled x) = None"
  by (simp add: handled_def return_value_def)

lemma safe_url_filename:
  assumes "is_safe_url e url = Inr True"
  shows "\<exists>filename. get_filename_from_url e url ct = Inr filename"
  using assms
  by (auto simp: is_safe_url_def get_filename_from_url_def Let_def split: sum.splits)

subsection \<open>Files\<close>

lemma path_exists_map_of: "path_exists fs p \<longleftrightarrow> map_of fs p \<noteq> None"
  by (simp add: path_exists_def map_of_eq_None_iff)

lemma map_of_filter_other: "q \<noteq> p \<Longrightarrow> map_of (filter (\<lambda>entry. fst entry \<noteq> p) fs) q = map_of fs q"
  by (induction fs) auto

lemma map_of_write_file: "map_of (write_file fs p c) q = (if q = p then Some c else map_of fs q)"
  by (simp add: write_file_def map_of_filter_other)

lemma path_exists_write_file: "path_exists (write_file fs p c) q \<longleftrightarrow> q = p \<or> path_exists fs q"
  by (simp add: path_exists_map_of map_of_write_file)

subsection \<open>The free path\<close>

lemma unique_filepath_taken:
  "path_exists fs filepath \<Longrightarrow>
     unique_filepath fs base ext counter filepath
       = unique_filepath fs base ext (counter + 1) (numbered base ext counter)"
  by (subst unique_filepath.simps) simp

lemma unique_filepath_not_exists: "\<not> path_exists fs (unique_filepath fs base ext counter filepath)"
proof (induction fs base ext counter filepath rule: unique_filepath.induct)
  case (1 fs base ext counter filepath)
  then show ?case
    by (cases "path_exists fs filepath") (simp_all add: unique_filepath_taken unique_filepath_free)
qed

lemma unique_filepath_first_free:
  "path_exists fs filepath \<Longrightarrow>
     \<exists>k\<ge>counter. unique_filepath fs base ext counter filepath = numbered base ext k
        \<and> \<not> path_exists fs (numbered base ext k)
        \<and> (\<forall>j. counter \<le> j \<and> j < k \<longrightarrow> path_exists fs (numbered base ext j))"
proof (induction fs base ext counter filepath rule: unique_filepath.induct)
  case (1 fs base ext counter filepath)
  show ?case
  proof (cases "path_exists fs (numbered base ext counter)")
    case False
    with "1.prems" have "unique_filepath fs base ext counter filepath = numbered base ext counter"
      by (simp add: unique_filepath_taken unique_filepath_free)
    with False show ?thesis
      by (intro exI [of _ counter]) auto
  next
    case True
    from "1.IH" [OF "1.prems" True] obtain k where k: "k \<ge> counter + 1"
      "unique_filepath fs base ext (counter + 1) (numbered base ext counter) = numbered base ext k"
      "\<not> path_exists fs (numbered base ext k)"
      "\<forall>j. counter + 1 \<le> j \<and> j < k \<longrightarrow> path_exists fs (numbered base ext j)"
      by blast
    have "\<forall>j. counter \<le> j \<and> j < k \<longrightarrow> path_exists fs (numbered base ext j)"
    proof (intro allI impI)
      fix j assume j: "counter \<le> j \<and> j < k"
      show "path_exists fs (numbered base ext j)"
      proof (cases "j = counter")
        case True
        with \<open>path_exists fs (numbered base ext counter)\<close> show ?thesis by simp
      next
        case False
        with j k(4) show ?thesis by simp
      qed
    qed
    with k "1.prems" show ?thesis
      by (intro exI [of _ k]) (simp add: unique_filepath_taken)
  qed
qed

subsection \<open>A body that reaches the duplicate check\<close>

lemma download_image_seen_body:
  assumes "yields_body e url w b" and "md5_hexdigest b \<in> downloaded_hashes w"
  shows "download_image e url w = Inr (Duplicate, w\<lparr>requests_made := requests_made w + 1\<rparr>)"
  using assms download_image_seen_content by (auto simp: yields_body_def)


lemma download_image_fresh_target:
  assumes "yields_body e url w b" and "md5_hexdigest b \<notin> downloaded_hashes w"
      and "target_path e url w = Some fp"
  shows "\<not> path_exists (files w) fp"
    and "download_image e url w =
     (case open_wb e fp b of
        Written \<Rightarrow>
          Inr (Saved fp,
               w\<lparr>downloaded_hashes := insert (md5_hexdigest b) (downloaded_hashes w),
                  files := write_file (files w) fp b,
                  requests_made := requests_made w + 1\<rparr>)
      | OpenRaises x \<Rightarrow>
          Inr (handled x,
               w\<lparr>downloaded_hashes := insert (md5_hexdigest b) (downloaded_hashes w),
                  requests_made := requests_made w + 1\<rparr>)
      | WriteRaises x n \<Rightarrow>
          Inr (handled x,
               w\<lparr>downloaded_hashes := insert (md5_hexdigest b) (downloaded_hashes w),
                  files := write_file (files w) fp (take n b),
                  requests_made := requests_made w + 1\<rparr>))"
proof -
  from assms(1) obtain r where safe: "is_safe_url e url = Inr True"
    and get: "requests_get e (requests_made w) url = Inr r"
    and valid: "validate_response r = Inr True"
    and read: "read_chunks (iter_content r) [] = ReadDone b"
    by (auto simp: yields_body_def)
  obtain filename where name: "get_filename_from_url e url
      (str_lower (headers_get_default (headers r) ''Content-Type'' [])) = Inr filename"
    using safe_url_filename [OF safe] by blast
  obtain base ext where split: "splitext (path_join ''Fetched_Images'' filename) = (base, ext)"
    by (cases "splitext (path_join ''Fetched_Images'' filename)")
  have fp: "unique_filepath (files w) base ext 1 (path_join ''Fetched_Images'' filename) = fp"
    using assms(3) by (simp add: target_path_def get name split)
  show "\<not> path_exists (files w) fp"
    unfolding fp [symmetric] by (rule unique_filepath_not_exists)
  show "download_image e url w =
     (case open_wb e fp b of
        Written \<Rightarrow>
          Inr (Saved fp,
               w\<lparr>downloaded_hashes := insert (md5_hexdigest b) (downloaded_hashes w),
                  files := write_file (files w) fp b,
                  requests_made := requests_made w + 1\<rparr>)
      | OpenRaises x \<Rightarrow>
          Inr (handled x,
               w\<lparr>downloaded_hashes := insert (md5_hexdigest b) (downloaded_hashes w),
                  requests_made := requests_made w + 1\<rparr>)
      | WriteRaises x n \<Rightarrow>
          Inr (handled x,
               w\<lparr>downloaded_hashes := insert (md5_hexdigest b) (downloaded_hashes w),
                  files := write_file (files w) fp (take n b),
                  requests_made := requests_made w + 1\<rparr>))"
    by (rule download_image_new_content [OF safe get valid read assms(2) name split fp])
qed

subsection \<open>What every download keeps\<close>

lemma save_image_keeps:
  assumes "save_image e url ct content w = (res, w')"
  shows "downloaded_hashes w' = downloaded_hashes w
       \<and> requests_made w' = requests_made w
       \<and> (path_exists (files w) p \<longrightarrow> map_of (files w') p = map_of (files w) p)"
proof -
  have "\<And>base ext fp. path_exists (files w) p \<Longrightarrow> p \<noteq> unique_filepath (files w) base ext 1 fp"
    using unique_filepath_not_exists by metis
  then show ?thesis
    using assms
    by (auto simp: save_image_def Let_def map_of_write_file
        split: sum.splits prod.splits write_result.splits)
qed

lemma try_block_keeps:
  assumes "try_block e url w = (res, w')"
  shows "downloaded_hashes w \<subseteq> downloaded_hashes w'
       \<and> requests_made w' = requests_made w + 1
       \<and> (path_exists (files w) p \<longrightarrow> map_of (files w') p = map_of (files w) p)"
proof (cases "requests_get e (requests_made w) url")
  case (Inl x)
  with assms show ?thesis by (auto simp: try_block_def)
next
  case get: (Inr r)
  show ?thesis
  proof (cases "validate_response r")
    case (Inl x)
    with get assms show ?thesis by (auto simp: try_block_def)
  next
    case (Inr ok)
    show ?thesis
    proof (cases ok)
      case False
      with get Inr assms show ?thesis by (auto simp: try_block_def)
    next
      case True
      with Inr have valid: "validate_response r = Inr True" by simp
      show ?thesis
      proof (cases "read_chunks (iter_content r) []")
        case (ReadRaised x)
        with get valid assms show ?thesis by (auto simp: try_block_def)
      next
        case ReadTooLarge
        with get valid assms show ?thesis by (auto simp: try_block_def)
      next
        case (ReadDone content)
        show ?thesis
        proof (cases "md5_hexdigest content \<in> downloaded_hashes w")
          case True
          with get valid ReadDone assms show ?thesis
            by (auto simp: try_block_def is_duplicate_image_eq)
        next
          case False
          define w2 where "w2 = w\<lparr>requests_made := requests_made w + 1,
            downloaded_hashes := insert (md5_hexdigest content) (downloaded_hashes w)\<rparr>"
          from get valid ReadDone False assms
          have "save_image e url (str_lower (headers_get_default (headers r) ''Content-Type'' []))
                  content w2 = (res, w')"
            by (simp add: try_block_def is_duplicate_image_eq w2_def)
          from save_image_keeps [OF this, of p] show ?thesis
            by (auto simp: w2_def)
        qed
      qed
    qed
  qed
qed

lemma download_image_keeps:
  assumes "download_image e url w = Inr (out, w')"
  shows "downloaded_hashes w \<subseteq> downloaded_hashes w'
       \<and> requests_made w \<le> requests_made w'
       \<and> (path_exists (files w) p \<longrightarrow> map_of (files w') p = map_of (files w) p)"
proof (cases "is_safe_url e url")
  case (Inl x)
  with assms show ?thesis by (simp add: download_image_def)
next
  case (Inr safe)
  show ?thesis
  proof (cases safe)
    case False
    with Inr assms show ?thesis by (auto simp: download_image_def)
  next
    case True
    obtain res w1 where tb: "try_block e url w = (res, w1)"
      by (cases "try_block e url w")
    with Inr True assms have "w' = w1"
      by (auto simp: download_image_def split: sum.splits if_splits)
    with try_block_keeps [OF tb, of p] show ?thesis by simp
  qed
qed

lemma process_urls_keeps:
  assumes "process_urls e urls n outs w = Inr (n', outs', w')"
  shows "downloaded_hashes w \<subseteq> downloaded_hashes w'
       \<and> (path_exists (files w) p \<longrightarrow> map_of (files w') p = map_of (files w) p)"
  using assms
proof (induction urls arbitrary: n outs w)
  case Nil
  then show ?case by simp
next
  case (Cons url urls)
  from Cons.prems obtain out w1 where d: "download_image e url w = Inr (out, w1)"
    and rest: "process_urls e urls (if truthy (return_value out) then n + 1 else n) (outs @ [out]) w1
                 = Inr (n', outs', w')"
    by (auto split: sum.splits)
  from download_image_keeps [OF d, of p] Cons.IH [OF rest]
  show ?case
    by (auto simp: path_exists_map_of)
qed

section \<open>Example URLs and responses\<close>





lemma png_facts:
  "validate_response (png body) = Inr True"
  "iter_content (png body) = [Chunk body]"
  "headers (png body) = [(''Content-Type'', ''image/png'')]"
  by (simp_all add: png_def validate_png_only image_response_sel)

lemma read_one_chunk:
  "int (length body) \<le> max_file_size \<Longrightarrow> read_chunks [Chunk body] [] = ReadDone body"
  by simp

lemma yields_body_png:
  assumes "map_of table url = Some (png body)"
      and "is_safe_url (serving table wr) url = Inr True"
      and "int (length body) \<le> max_file_size"
  shows "yields_body (serving table wr) url w body"
  using assms by (simp add: yields_body_def serving_get png_facts)

lemma download_png_new:
  assumes tab: "map_of table url = Some (png body)"
      and safe: "is_safe_url (serving table wr) url = Inr True"
      and len: "int (length body) \<le> max_file_size"
      and fresh: "md5_hexdigest body \<notin> downloaded_hashes w"
      and name: "\<And>ct. get_filename_from_url (serving table wr) url ct = Inr filename"
      and split: "splitext (path_join ''Fetched_Images'' filename) = (base, ext)"
      and free: "unique_filepath (files w) base ext 1 (path_join ''Fetched_Images'' filename) = fp"
  shows "download_image (serving table wr) url w =
     (case wr fp body of
        Written \<Rightarrow>
          Inr (Saved fp,
               w\<lparr>downloaded_hashes := insert (md5_hexdigest body) (downloaded_hashes w),
                  files := write_file (files w) fp body,
                  requests_made := requests_made w + 1\<rparr>)
      | OpenRaises x \<Rightarrow>
          Inr (handled x,
               w\<lparr>downloaded_hashes := insert (md5_hexdigest body) (downloaded_hashes w),
                  requests_made := requests_made w + 1\<rparr>)
      | WriteRaises x n \<Rightarrow>
          Inr (handled x,
               w\<lparr>downloaded_hashes := insert (md5_hexdigest body) (downloaded_hashes w),
                  files := write_file (files w) fp (take n body),
                  requests_made := requests_made w + 1\<rparr>))"
proof -
  have "download_image (serving table wr) url w =
     (case open_wb (serving table wr) fp body of
        Written \<Rightarrow>
          Inr (Saved fp,
               w\<lparr>downloaded_hashes := insert (md5_hexdigest body) (downloaded_hashes w),
                  files := write_file (files w) fp body,
                  requests_made := requests_made w + 1\<rparr>)
      | OpenRaises x \<Rightarrow>
          Inr (handled x,
               w\<lparr>downloaded_hashes := insert (md5_hexdigest body) (downloaded_hashes w),
                  requests_made := requests_made w + 1\<rparr>)
      | WriteRaises x n \<Rightarrow>
          Inr (handled x,
               w\<lparr>downloaded_hashes := insert (md5_hexdigest body) (downloaded_hashes w),
                  files := write_file (files w) fp (take n body),
                  requests_made := requests_made w + 1\<rparr>))"
    by (rule download_image_new_content [where r = "png body" and filename = filename
          and base = base and ext = ext])
       (use assms in \<open>simp_all add: serving_get png_facts\<close>)
  then show ?thesis
    by (simp add: serving_get)
qed

section \<open>Deduplication\<close>



text \<open>
  C9, as amended. The hash is recorded before the write. Let \<open>fp\<close> be the path the
  download arrives at; it did not exist before. When the body is new and the write to
  \<open>fp\<close> fails, the outcome is one of the two failures and no path is returned, the hash
  stays recorded, and every later download of a byte-identical body, whatever was
  processed in between, is a duplicate. The files that existed are untouched. When
  opening the file fails, nothing is created. When the write raises after the file was
  opened, the new file stays in the directory: \<open>fp\<close> exists afterwards and holds the
  prefix of the body written so far.
\<close>

theorem registry_not_rolled_back:
  assumes first: "yields_body e url w b"
      and fresh: "md5_hexdigest b \<notin> downloaded_hashes w"
      and target: "target_path e url w = Some fp"
      and fails: "open_wb e fp b \<noteq> Written"
      and d1: "download_image e url w = Inr (out, w1)"
      and later: "process_urls e urls n outs w1 = Inr (n', outs', w2)"
      and again: "yields_body e url' w2 b"
  shows "(\<exists>x. out = ConnectionError x \<or> out = OtherError x)
       \<and> return_value out = None
       \<and> md5_hexdigest b \<in> downloaded_hashes w1
       \<and> (\<forall>p. path_exists (files w) p \<longrightarrow> map_of (files w1) p = map_of (files w) p)
       \<and> (\<forall>p c. \<not> path_exists (files w) p \<and> map_of (files w1) p = Some c \<longrightarrow> (\<exists>k. c = take k b))
       \<and> \<not> path_exists (files w) fp
       \<and> (\<forall>x. open_wb e fp b = OpenRaises x \<longrightarrow> files w1 = files w)
       \<and> (\<forall>x k. open_wb e fp b = WriteRaises x k \<longrightarrow>
             files w1 = write_file (files w) fp (take k b)
             \<and> path_exists (files w1) fp \<and> map_of (files w1) fp = Some (take k b))
       \<and> download_image e url' w2 = Inr (Duplicate, w2\<lparr>requests_made := requests_made w2 + 1\<rparr>)"
proof -
  note t = download_image_fresh_target [OF first fresh target]
  from t(2) d1 have c: "case open_wb e fp b of
                  Written \<Rightarrow> out = Saved fp \<and> files w1 = write_file (files w) fp b
                | OpenRaises x \<Rightarrow> out = handled x \<and> files w1 = files w
                | WriteRaises x k \<Rightarrow> out = handled x \<and> files w1 = write_file (files w) fp (take k b)"
    and h: "downloaded_hashes w1 = insert (md5_hexdigest b) (downloaded_hashes w)"
    by (cases "open_wb e fp b"; auto)+
  from c fails have out: "\<exists>x. out = handled x"
    by (cases "open_wb e fp b") auto
  then have o1: "\<exists>x. out = ConnectionError x \<or> out = OtherError x"
    by (auto simp: handled_def)
  from out have o2: "return_value out = None"
    by (auto simp: return_value_handled)
  have keep: "\<forall>p. path_exists (files w) p \<longrightarrow> map_of (files w1) p = map_of (files w) p"
    using download_image_keeps [OF d1] by blast
  have new: "\<forall>p c. \<not> path_exists (files w) p \<and> map_of (files w1) p = Some c \<longrightarrow> (\<exists>k. c = take k b)"
    using c fails
    by (cases "open_wb e fp b")
       (auto simp: map_of_write_file path_exists_map_of split: if_splits)
  have opn: "\<forall>x. open_wb e fp b = OpenRaises x \<longrightarrow> files w1 = files w"
    using c by auto
  have wrt: "\<forall>x k. open_wb e fp b = WriteRaises x k \<longrightarrow>
             files w1 = write_file (files w) fp (take k b)
             \<and> path_exists (files w1) fp \<and> map_of (files w1) fp = Some (take k b)"
    using c by (auto simp: map_of_write_file path_exists_write_file)
  have "md5_hexdigest b \<in> downloaded_hashes w2"
    using process_urls_keeps [OF later] h by auto
  from download_image_seen_body [OF again this] o1 o2 h keep new t(1) opn wrt show ?thesis
    by (simp add: map_of_write_file path_exists_write_file)
qed

lemma target_path_a_png:
  "target_path (serving [(''http://example.test/a.png'', png [1, 2, 3])] wr)
     ''http://example.test/a.png'' initial_world = Some ''Fetched_Images/a.png''"
  by (simp add: target_path_def serving_get filename_a_png path_facts_a_png initial_world_def
        unique_filepath_free path_exists_def)

lemma first_download_open_fails:
  "download_image (serving [(''http://example.test/a.png'', png [1, 2, 3])] open_fails)
     ''http://example.test/a.png'' initial_world
   = Inr (OtherError OSError,
          \<lparr>downloaded_hashes = {md5_hexdigest [1, 2, 3]}, files = [], requests_made = 1\<rparr>)"
  by (subst download_png_new [where body = "[1, 2, 3]" and filename = "''a.png''"
        and base = "''Fetched_Images/a''" and ext = "''.png''" and fp = "''Fetched_Images/a.png''"])
     (simp_all add: is_safe_a_png filename_a_png path_facts_a_png max_file_size_def
        initial_world_def unique_filepath_free path_exists_def open_fails_def handled_def)

theorem registry_not_rolled_back_witness:
  "download_image (serving [(''http://example.test/a.png'', png [1, 2, 3])] open_fails)
     ''http://example.test/a.png'' initial_world
   = Inr (OtherError OSError,
          \<lparr>downloaded_hashes = {md5_hexdigest [1, 2, 3]}, files = [], requests_made = 1\<rparr>)
   \<and> download_image (serving [(''http://example.test/a.png'', png [1, 2, 3])] open_fails)
       ''http://example.test/a.png''
       \<lparr>downloaded_hashes = {md5_hexdigest [1, 2, 3]}, files = [], requests_made = 1\<rparr>
     = Inr (Duplicate,
            \<lparr>downloaded_hashes = {md5_hexdigest [1, 2, 3]}, files = [], requests_made = 2\<rparr>)"
proof -
  let ?e = "serving [(''http://example.test/a.png'', png [1, 2, 3])] open_fails"
  let ?w1 = "\<lparr>downloaded_hashes = {md5_hexdigest [1, 2, 3]}, files = [], requests_made = 1\<rparr>"
  have y: "\<And>w. yields_body ?e ''http://example.test/a.png'' w [1, 2, 3]"
    by (rule yields_body_png) (simp_all add: is_safe_a_png max_file_size_def)
  have fails: "open_wb ?e ''Fetched_Images/a.png'' [1, 2, 3] \<noteq> Written"
    by (simp add: serving_get open_fails_def)
  have later: "process_urls ?e [] 0 [] ?w1 = Inr (0, [], ?w1)"
    by simp
  from registry_not_rolled_back [OF y _ target_path_a_png fails first_download_open_fails later y]
       first_download_open_fails
  show ?thesis
    by (simp add: initial_world_def)
qed

text \<open>
  C9 as stated fails where it says that no file is saved: when the write raises after
  \<open>open\<close> has created the file, the failure is reported and the new file is left in
  the directory with the bytes written so far.
\<close>

theorem truncated_file_counterexample:
  "download_image (serving [(''http://example.test/a.png'', png [1, 2, 3])] write_fails)
     ''http://example.test/a.png'' initial_world
   = Inr (OtherError OSError,
          \<lparr>downloaded_hashes = {md5_hexdigest [1, 2, 3]},
           files = [(''Fetched_Images/a.png'', [1, 2])], requests_made = 1\<rparr>)
   \<and> path_exists [(''Fetched_Images/a.png'', [1, 2 :: byte])] ''Fetched_Images/a.png''"
  by (subst download_png_new [where body = "[1, 2, 3]" and filename = "''a.png''"
        and base = "''Fetched_Images/a''" and ext = "''.png''" and fp = "''Fetched_Images/a.png''"])
     (simp_all add: is_safe_a_png filename_a_png path_facts_a_png max_file_size_def
        initial_world_def unique_filepath_free path_exists_def write_fails_def handled_def
        write_file_def)

subsection \<open>Digests of example bodies\<close>







lemma download_a_123:
  "download_image (serving ((''http://example.test/a.png'', png [1, 2, 3]) # table) always_written)
     ''http://example.test/a.png'' initial_world
   = Inr (Saved ''Fetched_Images/a.png'',
          \<lparr>downloaded_hashes = {md5_hexdigest [1, 2, 3]},
           files = [(''Fetched_Images/a.png'', [1, 2, 3])], requests_made = 1\<rparr>)"
  by (subst download_png_new [where body = "[1, 2, 3]" and filename = "''a.png''"
        and base = "''Fetched_Images/a''" and ext = "''.png''" and fp = "''Fetched_Images/a.png''"])
     (simp_all add: is_safe_a_png filename_a_png path_facts_a_png max_file_size_def
        initial_world_def unique_filepath_free path_exists_def always_written_def write_file_def)




section \<open>Collision-free file names\<close>

lemma save_image_Saved:
  assumes "save_image e url ct content w = (Inr (Saved fp), w')"
  shows "\<exists>filename. get_filename_from_url e url ct = Inr filename
           \<and> fp = unique_filepath (files w)
                    (fst (splitext (path_join ''Fetched_Images'' filename)))
                    (snd (splitext (path_join ''Fetched_Images'' filename))) 1
                    (path_join ''Fetched_Images'' filename)
           \<and> files w' = write_file (files w) fp content"
  using assms
  by (auto simp: save_image_def Let_def split: sum.splits prod.splits write_result.splits)

lemma try_block_Saved:
  assumes "try_block e url w = (Inr (Saved fp), w')"
  shows "\<exists>r content filename.
           requests_get e (requests_made w) url = Inr r
           \<and> get_filename_from_url e url
                 (str_lower (headers_get_default (headers r) ''Content-Type'' [])) = Inr filename
           \<and> fp = unique_filepath (files w)
                    (fst (splitext (path_join ''Fetched_Images'' filename)))
                    (snd (splitext (path_join ''Fetched_Images'' filename))) 1
                    (path_join ''Fetched_Images'' filename)
           \<and> files w' = write_file (files w) fp content"
proof (cases "requests_get e (requests_made w) url")
  case (Inl x)
  with assms show ?thesis by (auto simp: try_block_def)
next
  case get: (Inr r)
  show ?thesis
  proof (cases "validate_response r")
    case (Inl x)
    with get assms show ?thesis by (auto simp: try_block_def)
  next
    case (Inr ok)
    show ?thesis
    proof (cases ok)
      case False
      with get Inr assms show ?thesis by (auto simp: try_block_def)
    next
      case True
      with Inr have valid: "validate_response r = Inr True" by simp
      show ?thesis
      proof (cases "read_chunks (iter_content r) []")
        case (ReadRaised x)
        with get valid assms show ?thesis by (auto simp: try_block_def)
      next
        case ReadTooLarge
        with get valid assms show ?thesis by (auto simp: try_block_def)
      next
        case (ReadDone content)
        show ?thesis
        proof (cases "md5_hexdigest content \<in> downloaded_hashes w")
          case True
          with get valid ReadDone assms show ?thesis
            by (auto simp: try_block_def is_duplicate_image_eq)
        next
          case False
          define w2 where "w2 = w\<lparr>requests_made := requests_made w + 1,
            downloaded_hashes := insert (md5_hexdigest content) (downloaded_hashes w)\<rparr>"
          from get valid ReadDone False assms
          have "save_image e url (str_lower (headers_get_default (headers r) ''Content-Type'' []))
                  content w2 = (Inr (Saved fp), w')"
            by (simp add: try_block_def is_duplicate_image_eq w2_def)
          from save_image_Saved [OF this] get show ?thesis
            by (auto simp: w2_def)
        qed
      qed
    qed
  qed
qed

lemma download_image_Saved:
  assumes "download_image e url w = Inr (Saved fp, w')"
  shows "\<exists>r content filename.
           requests_get e (requests_made w) url = Inr r
           \<and> get_filename_from_url e url
                 (str_lower (headers_get_default (headers r) ''Content-Type'' [])) = Inr filename
           \<and> fp = unique_filepath (files w)
                    (fst (splitext (path_join ''Fetched_Images'' filename)))
                    (snd (splitext (path_join ''Fetched_Images'' filename))) 1
                    (path_join ''Fetched_Images'' filename)
           \<and> files w' = write_file (files w) fp content"
proof -
  from assms have "try_block e url w = (Inr (Saved fp), w')"
    by (auto simp: download_image_def split: sum.splits bool.splits prod.splits if_splits)
  then show ?thesis by (rule try_block_Saved)
qed

text \<open>
  C6. The loop keeps a candidate path that does not exist. Otherwise it returns the
  first of \<open>base_1ext\<close>, \<open>base_2ext\<close>, ... that does not exist: every lower number
  is taken. A saved path is the result of this loop on the path of the derived file
  name, split by \<open>splitext\<close>, and it did not exist before; and whatever a download
  does, every file that existed keeps its content.
\<close>

theorem filename_collision_resolution:
  "(\<not> path_exists fs filepath \<longrightarrow> unique_filepath fs base ext 1 filepath = filepath)
   \<and> (path_exists fs filepath \<longrightarrow>
        (\<exists>k\<ge>1. unique_filepath fs base ext 1 filepath = numbered base ext k
            \<and> \<not> path_exists fs (numbered base ext k)
            \<and> (\<forall>j. 1 \<le> j \<and> j < k \<longrightarrow> path_exists fs (numbered base ext j))))
   \<and> (download_image e url w = Inr (Saved fp, w') \<longrightarrow>
        (\<exists>r content filename.
            requests_get e (requests_made w) url = Inr r
            \<and> get_filename_from_url e url
                  (str_lower (headers_get_default (headers r) ''Content-Type'' [])) = Inr filename
            \<and> fp = unique_filepath (files w)
                     (fst (splitext (path_join ''Fetched_Images'' filename)))
                     (snd (splitext (path_join ''Fetched_Images'' filename))) 1
                     (path_join ''Fetched_Images'' filename)
            \<and> files w' = write_file (files w) fp content)
        \<and> \<not> path_exists (files w) fp)
   \<and> (download_image e url w = Inr (out, w') \<and> path_exists (files w) p
        \<longrightarrow> map_of (files w') p = map_of (files w) p)"
proof -
  have a: "\<not> path_exists fs filepath \<longrightarrow> unique_filepath fs base ext 1 filepath = filepath"
    by (simp add: unique_filepath_free)
  have b: "path_exists fs filepath \<longrightarrow>
        (\<exists>k\<ge>1. unique_filepath fs base ext 1 filepath = numbered base ext k
            \<and> \<not> path_exists fs (numbered base ext k)
            \<and> (\<forall>j. 1 \<le> j \<and> j < k \<longrightarrow> path_exists fs (numbered base ext j)))"
    using unique_filepath_first_free [of fs filepath 1 base ext] by blast
  have c: "download_image e url w = Inr (Saved fp, w') \<longrightarrow>
        (\<exists>r content filename.
            requests_get e (requests_made w) url = Inr r
            \<and> get_filename_from_url e url
                  (str_lower (headers_get_default (headers r) ''Content-Type'' [])) = Inr filename
            \<and> fp = unique_filepath (files w)
                     (fst (splitext (path_join ''Fetched_Images'' filename)))
                     (snd (splitext (path_join ''Fetched_Images'' filename))) 1
                     (path_join ''Fetched_Images'' filename)
            \<and> files w' = write_file (files w) fp content)
        \<and> \<not> path_exists (files w) fp"
  proof
    assume d: "download_image e url w = Inr (Saved fp, w')"
    from download_image_Saved [OF d] obtain r content filename where
      s: "requests_get e (requests_made w) url = Inr r"
        "get_filename_from_url e url
                  (str_lower (headers_get_default (headers r) ''Content-Type'' [])) = Inr filename"
        "fp = unique_filepath (files w)
                     (fst (splitext (path_join ''Fetched_Images'' filename)))
                     (snd (splitext (path_join ''Fetched_Images'' filename))) 1
                     (path_join ''Fetched_Images'' filename)"
        "files w' = write_file (files w) fp content"
      by blast
    from s(3) have "\<not> path_exists (files w) fp"
      by (simp add: unique_filepath_not_exists)
    with s show "(\<exists>r content filename.
            requests_get e (requests_made w) url = Inr r
            \<and> get_filename_from_url e url
                  (str_lower (headers_get_default (headers r) ''Content-Type'' [])) = Inr filename
            \<and> fp = unique_filepath (files w)
                     (fst (splitext (path_join ''Fetched_Images'' filename)))
                     (snd (splitext (path_join ''Fetched_Images'' filename))) 1
                     (path_join ''Fetched_Images'' filename)
            \<and> files w' = write_file (files w) fp content)
        \<and> \<not> path_exists (files w) fp"
      by blast
  qed
  have d: "download_image e url w = Inr (out, w') \<and> path_exists (files w) p
        \<longrightarrow> map_of (files w') p = map_of (files w) p"
    using download_image_keeps [of e url w out w' p] by blast
  from a b c d show ?thesis by blast
qed

lemma validate_jpeg_only:
  "validate_response (image_response [(''Content-Type'', ''image/jpeg'')] cs) = Inr True"
  by code_simp

lemma jpeg_facts:
  "validate_response (jpeg body) = Inr True"
  "iter_content (jpeg body) = [Chunk body]"
  by (simp_all add: jpeg_def validate_jpeg_only image_response_sel)

lemma urlparse_image_jpg:
  "urlparse e ''http://example.test/image.jpg'' =
     Inr \<lparr>scheme = ''http'', netloc = ''example.test'', path = ''/image.jpg'', params = [],
          query = [], fragment = []\<rparr>"
  by (simp add: urlparse_eval)

lemma is_safe_image_jpg: "is_safe_url e ''http://example.test/image.jpg'' = Inr True"
  by (simp add: is_safe_url_def urlparse_image_jpg)

lemma path_facts_image_jpg:
  "basename ''/image.jpg'' = ''image.jpg''"
  "splitext ''image.jpg'' = (''image'', ''.jpg'')"
  "path_join ''Fetched_Images'' ''image.jpg'' = ''Fetched_Images/image.jpg''"
  "splitext ''Fetched_Images/image.jpg'' = (''Fetched_Images/image'', ''.jpg'')"
  by code_simp+

lemma filename_image_jpg:
  "get_filename_from_url e ''http://example.test/image.jpg'' ct = Inr ''image.jpg''"
  by (simp add: get_filename_from_url_def urlparse_image_jpg path_facts_image_jpg)

lemma free_paths_image_jpg:
  "unique_filepath [(''Fetched_Images/image.jpg'', [9])]
     ''Fetched_Images/image'' ''.jpg'' 1 ''Fetched_Images/image.jpg''
   = ''Fetched_Images/image_1.jpg''"
  "unique_filepath [(''Fetched_Images/image_1.jpg'', [1, 2, 3]), (''Fetched_Images/image.jpg'', [9])]
     ''Fetched_Images/image'' ''.jpg'' 1 ''Fetched_Images/image.jpg''
   = ''Fetched_Images/image_2.jpg''"
  "numbered ''Fetched_Images/image'' ''.jpg'' 1 = ''Fetched_Images/image_1.jpg''"
  "numbered ''Fetched_Images/image'' ''.jpg'' 2 = ''Fetched_Images/image_2.jpg''"
  by code_simp+

lemma download_jpeg_saved:
  assumes free: "unique_filepath (files w) ''Fetched_Images/image'' ''.jpg'' 1
                   ''Fetched_Images/image.jpg'' = fp"
      and len: "int (length body) \<le> max_file_size"
      and fresh: "md5_hexdigest body \<notin> downloaded_hashes w"
  shows "download_image (serving [(''http://example.test/image.jpg'', jpeg body)] always_written)
           ''http://example.test/image.jpg'' w
         = Inr (Saved fp,
                w\<lparr>downloaded_hashes := insert (md5_hexdigest body) (downloaded_hashes w),
                   files := write_file (files w) fp body,
                   requests_made := requests_made w + 1\<rparr>)"
proof -
  let ?e = "serving [(''http://example.test/image.jpg'', jpeg body)] always_written"
  have "download_image ?e ''http://example.test/image.jpg'' w =
     (case open_wb ?e fp body of
        Written \<Rightarrow>
          Inr (Saved fp,
               w\<lparr>downloaded_hashes := insert (md5_hexdigest body) (downloaded_hashes w),
                  files := write_file (files w) fp body,
                  requests_made := requests_made w + 1\<rparr>)
      | OpenRaises x \<Rightarrow>
          Inr (handled x,
               w\<lparr>downloaded_hashes := insert (md5_hexdigest body) (downloaded_hashes w),
                  requests_made := requests_made w + 1\<rparr>)
      | WriteRaises x n \<Rightarrow>
          Inr (handled x,
               w\<lparr>downloaded_hashes := insert (md5_hexdigest body) (downloaded_hashes w),
                  files := write_file (files w) fp (take n body),
                  requests_made := requests_made w + 1\<rparr>))"
    by (rule download_image_new_content [where r = "jpeg body" and filename = "''image.jpg''"
          and base = "''Fetched_Images/image''" and ext = "''.jpg''"])
       (use assms in \<open>simp_all add: serving_get jpeg_facts is_safe_image_jpg filename_image_jpg
          path_facts_image_jpg\<close>)
  then show ?thesis
    by (simp add: serving_get always_written_def)
qed

theorem filename_collision_resolution_witness:
  "download_image (serving [(''http://example.test/image.jpg'', jpeg [1, 2, 3])] always_written)
     ''http://example.test/image.jpg''
     \<lparr>downloaded_hashes = {}, files = [(''Fetched_Images/image.jpg'', [9])], requests_made = 0\<rparr>
   = Inr (Saved ''Fetched_Images/image_1.jpg'',
          \<lparr>downloaded_hashes = {md5_hexdigest [1, 2, 3]},
           files = [(''Fetched_Images/image_1.jpg'', [1, 2, 3]), (''Fetched_Images/image.jpg'', [9])],
           requests_made = 1\<rparr>)
   \<and> download_image (serving [(''http://example.test/image.jpg'', jpeg [4, 5])] always_written)
     ''http://example.test/image.jpg''
     \<lparr>downloaded_hashes = {},
      files = [(''Fetched_Images/image_1.jpg'', [1, 2, 3]), (''Fetched_Images/image.jpg'', [9])],
      requests_made = 0\<rparr>
   = Inr (Saved ''Fetched_Images/image_2.jpg'',
          \<lparr>downloaded_hashes = {md5_hexdigest [4, 5]},
           files = [(''Fetched_Images/image_2.jpg'', [4, 5]),
                    (''Fetched_Images/image_1.jpg'', [1, 2, 3]), (''Fetched_Images/image.jpg'', [9])],
           requests_made = 1\<rparr>)
   \<and> path_exists [(''Fetched_Images/image.jpg'', [9 :: byte])] ''Fetched_Images/image.jpg''
   \<and> (\<exists>k\<ge>1. unique_filepath [(''Fetched_Images/image.jpg'', [9])]
                ''Fetched_Images/image'' ''.jpg'' 1 ''Fetched_Images/image.jpg''
              = numbered ''Fetched_Images/image'' ''.jpg'' k
            \<and> \<not> path_exists [(''Fetched_Images/image.jpg'', [9])]
                  (numbered ''Fetched_Images/image'' ''.jpg'' k))"
proof -
  let ?fs1 = "[(''Fetched_Images/image.jpg'', [9 :: byte])]"
  let ?fs2 = "[(''Fetched_Images/image_1.jpg'', [1, 2, 3]), (''Fetched_Images/image.jpg'', [9 :: byte])]"
  have ex: "path_exists ?fs1 ''Fetched_Images/image.jpg''"
    by (simp add: path_exists_def)
  have d1: "download_image (serving [(''http://example.test/image.jpg'', jpeg [1, 2, 3])] always_written)
     ''http://example.test/image.jpg''
     \<lparr>downloaded_hashes = {}, files = ?fs1, requests_made = 0\<rparr>
   = Inr (Saved ''Fetched_Images/image_1.jpg'',
          \<lparr>downloaded_hashes = {md5_hexdigest [1, 2, 3]},
           files = (''Fetched_Images/image_1.jpg'', [1, 2, 3]) # ?fs1, requests_made = 1\<rparr>)"
    by (subst download_jpeg_saved [where fp = "''Fetched_Images/image_1.jpg''"])
       (simp_all add: free_paths_image_jpg [unfolded One_nat_def] max_file_size_def write_file_def)
  have d2: "download_image (serving [(''http://example.test/image.jpg'', jpeg [4, 5])] always_written)
     ''http://example.test/image.jpg''
     \<lparr>downloaded_hashes = {}, files = ?fs2, requests_made = 0\<rparr>
   = Inr (Saved ''Fetched_Images/image_2.jpg'',
          \<lparr>downloaded_hashes = {md5_hexdigest [4, 5]},
           files = (''Fetched_Images/image_2.jpg'', [4, 5]) # ?fs2, requests_made = 1\<rparr>)"
    by (subst download_jpeg_saved [where fp = "''Fetched_Images/image_2.jpg''"])
       (simp_all add: free_paths_image_jpg [unfolded One_nat_def] max_file_size_def write_file_def)
  from filename_collision_resolution
         [of ?fs1 "''Fetched_Images/image.jpg''" "''Fetched_Images/image''" "''.jpg''"]
       ex
  have "\<exists>k\<ge>1. unique_filepath ?fs1 ''Fetched_Images/image'' ''.jpg'' 1 ''Fetched_Images/image.jpg''
              = numbered ''Fetched_Images/image'' ''.jpg'' k
            \<and> \<not> path_exists ?fs1 (numbered ''Fetched_Images/image'' ''.jpg'' k)"
    by blast
  with d1 d2 ex show ?thesis
    by simp
qed

section \<open>File names\<close>

lemma str_rfind_absent: "c \<notin> set s \<Longrightarrow> str_rfind s c = - 1"
  by (simp add: str_rfind_def)

lemma str_rfind_last:
  assumes "c \<notin> set post"
  shows "str_rfind (pre @ c # post) c = int (length pre)"
proof -
  have "takeWhile (\<lambda>x. x \<noteq> c) (rev post @ c # rev pre)
          = rev post @ takeWhile (\<lambda>x. x \<noteq> c) (c # rev pre)"
    by (rule takeWhile_append2) (use assms in auto)
  then show ?thesis
    by (simp add: str_rfind_def)
qed

lemma basename_last_segment: "basename p = last_segment p"
proof (cases "CHR ''/'' \<in> set p")
  case False
  then have tw: "takeWhile (\<lambda>c. c \<noteq> CHR ''/'') (rev p) = rev p"
    by (auto simp: takeWhile_eq_all_conv)
  show ?thesis
    unfolding basename_def last_segment_def tw
    using False by (simp add: str_rfind_absent slice_from_def clip_index_def)
next
  case True
  then obtain pre post where p: "p = pre @ CHR ''/'' # post" and post: "CHR ''/'' \<notin> set post"
    by (meson split_list_last)
  have "takeWhile (\<lambda>x. x \<noteq> CHR ''/'') (rev post @ CHR ''/'' # rev pre)
          = rev post @ takeWhile (\<lambda>x. x \<noteq> CHR ''/'') (CHR ''/'' # rev pre)"
    by (rule takeWhile_append2) (use post in auto)
  moreover have "nat (int (length pre) + 1) = Suc (length pre)"
    by simp
  ultimately show ?thesis
    using post by (simp add: basename_def last_segment_def p str_rfind_last slice_from_def clip_index_def)
qed

lemma last_segment_no_slash: "CHR ''/'' \<notin> set (last_segment p)"
proof
  assume "CHR ''/'' \<in> set (last_segment p)"
  then have "CHR ''/'' \<in> set (takeWhile (\<lambda>c. c \<noteq> CHR ''/'') (rev p))"
    by (simp add: last_segment_def)
  then show False
    by (auto dest: set_takeWhileD)
qed

lemma slice_single:
  assumes "0 \<le> f" and "nat f < length p"
  shows "slice p f (f + 1) = [p ! nat f]"
proof -
  from assms have n: "nat (f + 1) = Suc (nat f)" by simp
  from assms show ?thesis
    by (simp add: slice_def clip_index_def n take_Suc_conv_app_nth)
qed

lemma skip_leading_dots_some:
  "0 \<le> f \<Longrightarrow> nat d \<le> length p \<Longrightarrow>
     skip_leading_dots p f d = (\<exists>x \<in> set (drop (nat f) (take (nat d) p)). x \<noteq> CHR ''.'')"
proof (induction p f d rule: skip_leading_dots.induct)
  case (1 p f d)
  show ?case
  proof (cases "f < d")
    case False
    with 1(2) have "drop (nat f) (take (nat d) p) = []" by simp
    with False show ?thesis
      by (simp add: skip_leading_dots.simps [of p f d])
  next
    case True
    with 1(2,3) have lt: "nat f < length p" and lt': "nat f < nat d" by auto
    have sl: "slice p f (f + 1) = [p ! nat f]"
      by (rule slice_single [OF 1(2) lt])
    have n: "nat (f + 1) = Suc (nat f)" using 1(2) by simp
    have dr: "drop (nat f) (take (nat d) p) = p ! nat f # drop (Suc (nat f)) (take (nat d) p)"
      using lt lt' by (simp add: Cons_nth_drop_Suc [symmetric])
    show ?thesis
    proof (cases "p ! nat f = CHR ''.''")
      case False
      with True sl dr show ?thesis
        by (simp add: skip_leading_dots.simps [of p f d])
    next
      case dot: True
      have "skip_leading_dots p (f + 1) d
              = (\<exists>x \<in> set (drop (nat (f + 1)) (take (nat d) p)). x \<noteq> CHR ''.'')"
        using 1(1) [OF True] 1(2,3) sl dot by simp
      with True sl dr dot show ?thesis
        by (simp add: skip_leading_dots.simps [of p f d] n)
    qed
  qed
qed

lemma splitext_has_extension:
  assumes "CHR ''/'' \<notin> set seg"
  shows "(snd (splitext seg) = []) = (\<not> has_extension seg)"
proof (cases "CHR ''.'' \<in> set seg")
  case False
  then have "CHR ''.'' \<notin> set (dropWhile (\<lambda>c. c = CHR ''.'') seg)"
    by (auto dest: set_dropWhileD)
  with False assms show ?thesis
    by (simp add: splitext_def has_extension_def str_rfind_absent)
next
  case True
  then obtain pre post where seg: "seg = pre @ CHR ''.'' # post" and post: "CHR ''.'' \<notin> set post"
    by (meson split_list_last)
  have sep: "str_rfind seg CHR ''/'' = - 1"
    using assms by (rule str_rfind_absent)
  have dot: "str_rfind seg CHR ''.'' = int (length pre)"
    unfolding seg using post by (rule str_rfind_last)
  have skip: "skip_leading_dots seg 0 (int (length pre)) = (\<exists>x \<in> set pre. x \<noteq> CHR ''.'')"
    by (simp add: skip_leading_dots_some seg)
  have ext: "slice_from seg (int (length pre)) \<noteq> []"
    by (simp add: slice_from_def clip_index_def seg)
  have has: "has_extension seg = (\<exists>x \<in> set pre. x \<noteq> CHR ''.'')"
  proof (cases "\<exists>x \<in> set pre. x \<noteq> CHR ''.''")
    case True
    then have "dropWhile (\<lambda>c. c = CHR ''.'') seg
                 = dropWhile (\<lambda>c. c = CHR ''.'') pre @ CHR ''.'' # post"
      unfolding seg by (auto simp: dropWhile_append1)
    with True show ?thesis by (simp add: has_extension_def)
  next
    case False
    then have "dropWhile (\<lambda>c. c = CHR ''.'') seg = dropWhile (\<lambda>c. c = CHR ''.'') post"
      unfolding seg by (simp add: dropWhile_append2)
    with False post show ?thesis
      by (auto simp: has_extension_def dest: set_dropWhileD)
  qed
  show ?thesis
    using ext by (simp add: splitext_def sep dot skip has Let_def)
qed

lemma extension_table:
  "get_extension_from_content_type ct =
     (if ct = ''image/jpeg'' \<or> ct = ''image/jpg'' then ''.jpg''
      else if ct = ''image/png'' then ''.png''
      else if ct = ''image/gif'' then ''.gif''
      else if ct = ''image/webp'' then ''.webp''
      else if ct = ''image/svg+xml'' then ''.svg''
      else if ct = ''image/bmp'' then ''.bmp''
      else if ct = ''image/tiff'' then ''.tiff''
      else ''.jpg'')"
  by (simp add: get_extension_from_content_type_def content_map_def)

text \<open>
  C7. For a URL that the parser accepts, the file name is derived from the last segment of
  the parsed path: \<open>ubuntu_image\<close> followed by the mapped extension when the segment is
  empty, the segment itself when it has an extension, and the segment followed by the
  mapped extension otherwise. The mapped extension is \<open>.jpg\<close> for \<open>image/jpeg\<close> and
  \<open>image/jpg\<close>, \<open>.png\<close> for \<open>image/png\<close>, \<open>.gif\<close> for \<open>image/gif\<close>, \<open>.webp\<close> for
  \<open>image/webp\<close>, \<open>.svg\<close> for \<open>image/svg+xml\<close>, \<open>.bmp\<close> for \<open>image/bmp\<close>, \<open>.tiff\<close> for
  \<open>image/tiff\<close>, and \<open>.jpg\<close> for every other content type.
\<close>

theorem filename_derivation:
  assumes "urlparse e url = Inr p"
  shows "get_filename_from_url e url ct =
           Inr (if last_segment (path p) = []
                then ''ubuntu_image'' @ get_extension_from_content_type ct
                else if has_extension (last_segment (path p)) then last_segment (path p)
                else last_segment (path p) @ get_extension_from_content_type ct)
       \<and> get_extension_from_content_type ct =
           (if ct = ''image/jpeg'' \<or> ct = ''image/jpg'' then ''.jpg''
            else if ct = ''image/png'' then ''.png''
            else if ct = ''image/gif'' then ''.gif''
            else if ct = ''image/webp'' then ''.webp''
            else if ct = ''image/svg+xml'' then ''.svg''
            else if ct = ''image/bmp'' then ''.bmp''
            else if ct = ''image/tiff'' then ''.tiff''
            else ''.jpg'')"
proof -
  have "(snd (splitext (last_segment (path p))) = []) = (\<not> has_extension (last_segment (path p)))"
    by (rule splitext_has_extension [OF last_segment_no_slash])
  then have "get_filename_from_url e url ct =
           Inr (if last_segment (path p) = []
                then ''ubuntu_image'' @ get_extension_from_content_type ct
                else if has_extension (last_segment (path p)) then last_segment (path p)
                else last_segment (path p) @ get_extension_from_content_type ct)"
    using assms by (simp add: get_filename_from_url_def basename_last_segment Let_def)
  then show ?thesis
    using extension_table [of ct] by (rule conjI)
qed

lemma urlparse_sunset:
  "urlparse offline_env ''https://example.test/photos/sunset;v=2?size=large'' =
     Inr \<lparr>scheme = ''https'', netloc = ''example.test'', path = ''/photos/sunset'',
          params = ''v=2'', query = ''size=large'', fragment = []\<rparr>"
  by code_simp

lemma sunset_facts:
  "last_segment ''/photos/sunset'' = ''sunset''"
  "has_extension ''sunset'' = False"
  by code_simp+

theorem filename_derivation_witness:
  "urlparse offline_env ''https://example.test/photos/sunset;v=2?size=large'' =
     Inr \<lparr>scheme = ''https'', netloc = ''example.test'', path = ''/photos/sunset'',
          params = ''v=2'', query = ''size=large'', fragment = []\<rparr>
   \<and> get_filename_from_url offline_env ''https://example.test/photos/sunset;v=2?size=large''
       ''image/png'' = Inr ''sunset.png''
   \<and> get_extension_from_content_type ''image/png'' = ''.png''"
  using filename_derivation [OF urlparse_sunset, of "''image/png''"] urlparse_sunset
  by (simp add: sunset_facts)

section \<open>The summary of a batch\<close>

lemma get_filename_nonempty:
  assumes "get_filename_from_url e url ct = Inr filename"
  shows "filename \<noteq> []"
  using assms
  by (auto simp: get_filename_from_url_def Let_def split: sum.splits if_splits)

lemma path_join_nonempty: "b \<noteq> [] \<Longrightarrow> path_join a b \<noteq> []"
  by (simp add: path_join_def)

lemma numbered_nonempty: "numbered base ext k \<noteq> []"
  by (simp add: numbered_def)

lemma unique_filepath_nonempty:
  assumes "filepath \<noteq> []"
  shows "unique_filepath fs base ext counter filepath \<noteq> []"
proof (cases "path_exists fs filepath")
  case False
  with assms show ?thesis by (simp add: unique_filepath_free)
next
  case True
  from unique_filepath_first_free [OF True, of counter base ext] show ?thesis
    by (metis numbered_nonempty)
qed

lemma saved_path_nonempty:
  assumes "download_image e url w = Inr (Saved fp, w')"
  shows "fp \<noteq> []"
proof -
  from download_image_Saved [OF assms] obtain r :: response and filename where
    n: "get_filename_from_url e url
          (str_lower (headers_get_default (headers r) ''Content-Type'' [])) = Inr filename"
    and fp: "fp = unique_filepath (files w)
                    (fst (splitext (path_join ''Fetched_Images'' filename)))
                    (snd (splitext (path_join ''Fetched_Images'' filename))) 1
                    (path_join ''Fetched_Images'' filename)"
    by blast
  show ?thesis
    unfolding fp
    by (intro unique_filepath_nonempty path_join_nonempty get_filename_nonempty [OF n])
qed

lemma truthy_return_value:
  assumes "download_image e url w = Inr (out, w')"
  shows "truthy (return_value out) = is_saved out"
proof (cases out)
  case (Saved fp)
  with assms saved_path_nonempty [of e url w fp w'] show ?thesis
    by (simp add: truthy_def return_value_def is_saved_def)
qed (simp_all add: truthy_def return_value_def is_saved_def)

lemma process_urls_counts:
  assumes "process_urls e urls n outs w = Inr (n', outs', w')"
  shows "\<exists>new. outs' = outs @ new \<and> length new = length urls
           \<and> n' = n + length (filter is_saved new)"
  using assms
proof (induction urls arbitrary: n outs w)
  case Nil
  then show ?case by simp
next
  case (Cons url urls)
  from Cons.prems obtain out w1 where d: "download_image e url w = Inr (out, w1)"
    and rest: "process_urls e urls (if truthy (return_value out) then n + 1 else n) (outs @ [out]) w1
                 = Inr (n', outs', w')"
    by (auto split: sum.splits)
  from Cons.IH [OF rest] obtain new where new: "outs' = (outs @ [out]) @ new"
    "length new = length urls"
    "n' = (if truthy (return_value out) then n + 1 else n) + length (filter is_saved new)"
    by blast
  show ?case
    using new truthy_return_value [OF d]
    by (intro exI [of _ "out # new"]) simp
qed

text \<open>
  C8. When the loop of \<open>main\<close> has processed every URL of the batch, \<open>success_count\<close>
  is the number of URLs whose outcome is \<open>Saved\<close> and there is one outcome for each URL.
  For a batch that is not empty \<open>main\<close> then prints the summary line, which reports that
  count over the number of URLs; for the empty batch it prints no summary line.
\<close>

theorem batch_summary:
  assumes "process_urls e urls 0 [] w = Inr (success_count, outs, w')"
  shows "success_count = length (filter is_saved outs)
       \<and> length outs = length urls
       \<and> main_summary e urls w =
           (if urls = [] then Inr None
            else Inr (Some (length (filter is_saved outs), length urls)))"
  using process_urls_counts [OF assms] assms
  by (auto simp: main_summary_def)

lemma urlparse_ftp:
  "urlparse e ''ftp://example.test/b.jpg'' =
     Inr \<lparr>scheme = ''ftp'', netloc = ''example.test'', path = ''/b.jpg'', params = [],
          query = [], fragment = []\<rparr>"
  by (simp add: urlparse_eval)

lemma is_safe_ftp: "is_safe_url e ''ftp://example.test/b.jpg'' = Inr False"
  by (simp add: is_safe_url_def urlparse_ftp)

theorem batch_summary_witness:
  "process_urls (serving [(''http://example.test/a.png'', png [1, 2, 3])] always_written)
     [''http://example.test/a.png'', ''ftp://example.test/b.jpg'', ''http://example.test/a.png'']
     0 [] initial_world
   = Inr (1, [Saved ''Fetched_Images/a.png'', UnsafeScheme, Duplicate],
          \<lparr>downloaded_hashes = {md5_hexdigest [1, 2, 3]},
           files = [(''Fetched_Images/a.png'', [1, 2, 3])], requests_made = 2\<rparr>)
   \<and> main_summary (serving [(''http://example.test/a.png'', png [1, 2, 3])] always_written)
     [''http://example.test/a.png'', ''ftp://example.test/b.jpg'', ''http://example.test/a.png'']
     initial_world
   = Inr (Some (1, 3))"
proof -
  let ?e = "serving [(''http://example.test/a.png'', png [1, 2, 3])] always_written"
  let ?w1 = "\<lparr>downloaded_hashes = {md5_hexdigest [1, 2, 3]},
              files = [(''Fetched_Images/a.png'', [1, 2, 3])], requests_made = 1\<rparr>"
  have y: "yields_body ?e ''http://example.test/a.png'' ?w1 [1, 2, 3]"
    by (rule yields_body_png) (simp_all add: is_safe_a_png max_file_size_def)
  have d3: "download_image ?e ''http://example.test/a.png'' ?w1
              = Inr (Duplicate, ?w1\<lparr>requests_made := requests_made ?w1 + 1\<rparr>)"
    by (rule download_image_seen_body [OF y]) simp
  have d2: "\<And>w. download_image ?e ''ftp://example.test/b.jpg'' w = Inr (UnsafeScheme, w)"
    by (simp add: download_image_def is_safe_ftp)
  have run: "process_urls ?e
     [''http://example.test/a.png'', ''ftp://example.test/b.jpg'', ''http://example.test/a.png'']
     0 [] initial_world
   = Inr (1, [Saved ''Fetched_Images/a.png'', UnsafeScheme, Duplicate],
          \<lparr>downloaded_hashes = {md5_hexdigest [1, 2, 3]},
           files = [(''Fetched_Images/a.png'', [1, 2, 3])], requests_made = 2\<rparr>)"
    using d3 by (simp add: download_a_123 [of "[]"] d2 truthy_def return_value_def)
  from batch_summary [OF run] run show ?thesis
    by (simp add: is_saved_def)
qed

end
